theory Spec2Isabelle
  imports Main "HOL-Library.Multiset" "HOL-Library.Sublist"
begin

section \<open>Data model of \<open>read_schedule.py\<close>\<close>

text \<open>
  The instance is the dictionary that \<open>read_instance_file\<close> returns; the scheduler reads four
  of its entries (the horizon and the two lists of requests are never read and are left out).
  Python's integers are unbounded, so every number is an \<open>int\<close>. The read-only
  dictionaries (\<open>days_off\<close>, a staff member's \<open>shift_limits\<close>) are maps; the two growing
  indexes of \<open>Schedule\<close> are association lists in insertion order, as Python keeps them.
  A key that several dictionaries use keeps its name in \<open>Assignment\<close> and carries a prefix
  elsewhere: \<open>st_id\<close> is a staff member's \<open>id\<close>, \<open>sh_id\<close> and \<open>sh_length\<close> are a shift's
  \<open>id\<close> and \<open>length\<close>, \<open>cv_day\<close> and \<open>cv_shift_id\<close> are a requirement's \<open>day\<close> and
  \<open>shift_id\<close>.
\<close>

record assignment =
  staff_id :: string
  day :: int
  shift_id :: string

record shift =
  sh_id :: string
  sh_length :: int
  forbidden_following :: "string list"

record staff_member =
  st_id :: string
  shift_limits :: "string \<rightharpoonup> int"
  max_shifts :: int
  max_total_minutes :: int
  min_total_minutes :: int
  max_consecutive_shifts :: int
  min_consecutive_shifts :: int
  min_consecutive_days_off :: int
  max_weekends :: "int option"

record cover =
  cv_day :: int
  cv_shift_id :: string
  requirement :: int
  weight_under :: int
  weight_over :: int

record instance_data =
  shifts :: "shift list"
  staff :: "staff_member list"
  days_off :: "string \<rightharpoonup> int list"
  cover_requirements :: "cover list"

text \<open>The three structures \<open>Schedule.__init__\<close> creates empty.\<close>

record schedule =
  assignments :: "assignment list"
  staff_assignments :: "(string \<times> assignment list) list"
  day_shift_assignments :: "((int \<times> string) \<times> assignment list) list"

definition init_schedule :: schedule where
  "init_schedule =
     \<lparr>assignments = [], staff_assignments = [], day_shift_assignments = []\<rparr>"

text \<open>The exceptions the scheduler's own statements can raise.\<close>

datatype error = StopIteration | KeyError

subsection \<open>Dictionaries of lists\<close>

text \<open>
  \<open>d[k]\<close> on a \<open>defaultdict(list)\<close> and \<open>d.get(k, [])\<close> on a dictionary both give the
  empty list for a key that has no entry. Reading a \<open>defaultdict\<close> also stores that empty list
  under the key; no statement of the scheduler enumerates keys or tests membership of a key, so an
  entry holding the empty list and a missing entry are the same here.
\<close>

fun get_list :: "('k \<times> 'v list) list \<Rightarrow> 'k \<Rightarrow> 'v list" where
  "get_list [] k = []"
| "get_list ((k', vs) # d) k = (if k' = k then vs else get_list d k)"

text \<open>\<open>d[k].append(v)\<close> on a \<open>defaultdict(list)\<close>.\<close>

fun append_at :: "'k \<Rightarrow> 'v \<Rightarrow> ('k \<times> 'v list) list \<Rightarrow> ('k \<times> 'v list) list" where
  "append_at k v [] = [(k, [v])]"
| "append_at k v ((k', vs) # d) =
     (if k' = k then (k', vs @ [v]) # d else (k', vs) # append_at k v d)"

text \<open>\<open>sum(len(v) for v in d.values())\<close>.\<close>

definition total_len :: "('k \<times> 'v list) list \<Rightarrow> nat" where
  "total_len d = sum_list (map (\<lambda>kv. length (snd kv)) d)"

text \<open>All values of a dictionary of lists, one list after the other.\<close>

definition all_values :: "('k \<times> 'v list) list \<Rightarrow> 'v list" where
  "all_values d = concat (map snd d)"

section \<open>\<open>Schedule\<close>\<close>

text \<open>
  \<open>shifts_dict = {shift['id']: shift for shift in instance_data['shifts']}\<close>: a later shift
  with the same id replaces an earlier one.
\<close>

definition shifts_dict :: "instance_data \<Rightarrow> string \<rightharpoonup> shift" where
  "shifts_dict inst = foldl (\<lambda>m sh. m(sh_id sh \<mapsto> sh)) Map.empty (shifts inst)"

subsection \<open>\<open>is_valid_assignment\<close>\<close>

text \<open>\<open>next(s for s in instance_data['staff'] if s['id'] == staff_id)\<close>; \<open>None\<close> is StopIteration.\<close>

definition find_staff :: "instance_data \<Rightarrow> string \<Rightarrow> staff_member option" where
  "find_staff inst sid = find (\<lambda>s. st_id s = sid) (staff inst)"

text \<open>Lines 32-34: \<open>day in instance_data['days_off'].get(staff_id, [])\<close>.\<close>

definition is_day_off :: "instance_data \<Rightarrow> assignment \<Rightarrow> bool" where
  "is_day_off inst a =
     (day a \<in> set (case days_off inst (staff_id a) of None \<Rightarrow> [] | Some ds \<Rightarrow> ds))"

text \<open>Lines 38-39: the number of the staff member's assignments with the candidate's shift.\<close>

definition current_count :: "schedule \<Rightarrow> assignment \<Rightarrow> int" where
  "current_count sc a =
     int (length (filter (\<lambda>b. shift_id b = shift_id a)
                    (get_list (staff_assignments sc) (staff_id a))))"

text \<open>Lines 36-41: true when the quota check returns False from the predicate.\<close>

definition limit_reached :: "staff_member \<Rightarrow> schedule \<Rightarrow> assignment \<Rightarrow> bool" where
  "limit_reached s sc a =
     (case shift_limits s (shift_id a) of
        None \<Rightarrow> False
      | Some cap \<Rightarrow> current_count sc a \<ge> cap)"

text \<open>
  Lines 43-48: true when the succession check returns False from the predicate. The shift of the
  last assignment is looked up in \<open>shifts_dict\<close> only when its day is the day before; a shift
  id that is not in the table raises KeyError there.
\<close>

definition forbidden_after_last :: "instance_data \<Rightarrow> schedule \<Rightarrow> assignment \<Rightarrow> error + bool" where
  "forbidden_after_last inst sc a =
     (let mine = get_list (staff_assignments sc) (staff_id a) in
      if length mine > 0 then
        (let last_assignment = last mine in
         if day last_assignment = day a - 1 then
           (case shifts_dict inst (shift_id last_assignment) of
              None \<Rightarrow> Inl KeyError
            | Some sh \<Rightarrow> Inr (shift_id a \<in> set (forbidden_following sh)))
         else Inr False)
      else Inr False)"

text \<open>
  Lines 51-56: the loop over \<open>range(day - 1, -1, -1)\<close>, which leaves at the first day without an
  assignment of the staff member.
\<close>

fun count_back :: "assignment list \<Rightarrow> int list \<Rightarrow> int \<Rightarrow> int" where
  "count_back mine [] c = c"
| "count_back mine (prev_day # ds) c =
     (if \<exists>b \<in> set mine. day b = prev_day then count_back mine ds (c + 1) else c)"

definition consecutive_count :: "schedule \<Rightarrow> assignment \<Rightarrow> int" where
  "consecutive_count sc a =
     count_back (get_list (staff_assignments sc) (staff_id a)) (rev [0 .. day a - 1]) 1"

definition is_valid_assignment :: "instance_data \<Rightarrow> schedule \<Rightarrow> assignment \<Rightarrow> error + bool" where
  "is_valid_assignment inst sc a =
     (case find_staff inst (staff_id a) of
        None \<Rightarrow> Inl StopIteration
      | Some s \<Rightarrow>
          if is_day_off inst a then Inr False
          else if limit_reached s sc a then Inr False
          else (case forbidden_after_last inst sc a of
                  Inl e \<Rightarrow> Inl e
                | Inr True \<Rightarrow> Inr False
                | Inr False \<Rightarrow>
                    if consecutive_count sc a > max_consecutive_shifts s then Inr False
                    else Inr True))"

subsection \<open>\<open>greedy_schedule\<close>\<close>

text \<open>Lines 99-101: the three appends of one insertion.\<close>

definition commit :: "schedule \<Rightarrow> assignment \<Rightarrow> schedule" where
  "commit sc a =
     \<lparr>assignments = assignments sc @ [a],
      staff_assignments = append_at (staff_id a) a (staff_assignments sc),
      day_shift_assignments = append_at (day a, shift_id a) a (day_shift_assignments sc)\<rparr>"

definition potential_assignment :: "staff_member \<Rightarrow> cover \<Rightarrow> assignment" where
  "potential_assignment s req =
     \<lparr>staff_id = st_id s, day = cv_day req, shift_id = cv_shift_id req\<rparr>"

text \<open>
  Lines 85-102: the loop over the staff list for one requirement. It gives back what is still
  needed and the schedule; an exception of the predicate leaves the loop.
\<close>

fun assign_staff ::
  "instance_data \<Rightarrow> cover \<Rightarrow> staff_member list \<Rightarrow> int \<Rightarrow> schedule \<Rightarrow> error + (int \<times> schedule)" where
  "assign_staff inst req [] needed sc = Inr (needed, sc)"
| "assign_staff inst req (s # ss) needed sc =
     (if needed \<le> 0 then Inr (needed, sc)
      else (case is_valid_assignment inst sc (potential_assignment s req) of
              Inl e \<Rightarrow> Inl e
            | Inr True \<Rightarrow>
                assign_staff inst req ss (needed - 1) (commit sc (potential_assignment s req))
            | Inr False \<Rightarrow> assign_staff inst req ss needed sc))"

text \<open>Lines 78-79: what a requirement still needs in the current schedule.\<close>

definition needed_for :: "schedule \<Rightarrow> cover \<Rightarrow> int" where
  "needed_for sc req =
     requirement req - int (length (get_list (day_shift_assignments sc) (cv_day req, cv_shift_id req)))"

text \<open>Lines 72-108: the loop over the sorted requirements, with its two ways out.\<close>

fun fill_requirements ::
  "instance_data \<Rightarrow> cover list \<Rightarrow> schedule \<Rightarrow> error + (bool \<times> schedule)" where
  "fill_requirements inst [] sc = Inr (True, sc)"
| "fill_requirements inst (req # reqs) sc =
     (if needed_for sc req \<le> 0 then fill_requirements inst reqs sc
      else (case assign_staff inst req (staff inst) (needed_for sc req) sc of
              Inl e \<Rightarrow> Inl e
            | Inr (needed, sc') \<Rightarrow>
                if needed > 0 then Inr (False, sc')
                else fill_requirements inst reqs sc'))"

text \<open>
  Lines 65-69: \<open>sorted(..., key=weight_under, reverse=True)\<close> is stable, so requirements of equal
  weight keep their input order; sorting on the negated weight is the same order.
\<close>

definition sorted_requirements :: "instance_data \<Rightarrow> cover list" where
  "sorted_requirements inst = sort_key (\<lambda>req. - weight_under req) (cover_requirements inst)"

definition greedy_schedule :: "instance_data \<Rightarrow> error + (bool \<times> schedule)" where
  "greedy_schedule inst = fill_requirements inst (sorted_requirements inst) init_schedule"

subsection \<open>What the object holds when \<open>greedy_schedule\<close> ends\<close>

text \<open>
  The appends of lines 99-101 change the \<open>Schedule\<close> object itself, so the assignments made
  before an exception stay in it. The same two loops once more, giving the schedule the object
  holds when the loop is left, by its end, by \<open>break\<close>, by \<open>return\<close> or by an exception of the
  predicate.
\<close>

fun assign_staff_held ::
  "instance_data \<Rightarrow> cover \<Rightarrow> staff_member list \<Rightarrow> int \<Rightarrow> schedule \<Rightarrow> schedule" where
  "assign_staff_held inst req [] needed sc = sc"
| "assign_staff_held inst req (s # ss) needed sc =
     (if needed \<le> 0 then sc
      else (case is_valid_assignment inst sc (potential_assignment s req) of
              Inl e \<Rightarrow> sc
            | Inr True \<Rightarrow>
                assign_staff_held inst req ss (needed - 1) (commit sc (potential_assignment s req))
            | Inr False \<Rightarrow> assign_staff_held inst req ss needed sc))"

fun fill_requirements_held :: "instance_data \<Rightarrow> cover list \<Rightarrow> schedule \<Rightarrow> schedule" where
  "fill_requirements_held inst [] sc = sc"
| "fill_requirements_held inst (req # reqs) sc =
     (if needed_for sc req \<le> 0 then fill_requirements_held inst reqs sc
      else (case assign_staff inst req (staff inst) (needed_for sc req) sc of
              Inl e \<Rightarrow> assign_staff_held inst req (staff inst) (needed_for sc req) sc
            | Inr (needed, sc') \<Rightarrow>
                if needed > 0 then sc' else fill_requirements_held inst reqs sc'))"

definition schedule_after :: "instance_data \<Rightarrow> schedule" where
  "schedule_after inst = fill_requirements_held inst (sorted_requirements inst) init_schedule"

section \<open>What the properties speak about\<close>

text \<open>
  The schedules an execution of \<open>greedy_schedule\<close> can be in: the empty one, and one more
  insertion of a candidate (a staff member of the instance on the day and shift of one of its
  requirements) that the predicate accepted. Every schedule the two loops pass through is of this
  kind (\<open>assign_staff_reachable\<close>, \<open>fill_requirements_reachable\<close>,
  \<open>greedy_schedule_reachable\<close> below).
\<close>

inductive reachable :: "instance_data \<Rightarrow> schedule \<Rightarrow> bool" for inst where
  reach_init: "reachable inst init_schedule"
| reach_commit:
    "reachable inst sc \<Longrightarrow> s \<in> set (staff inst) \<Longrightarrow> req \<in> set (cover_requirements inst) \<Longrightarrow>
     is_valid_assignment inst sc (potential_assignment s req) = Inr True \<Longrightarrow>
     reachable inst (commit sc (potential_assignment s req))"

text \<open>
  The three structures agree: equal sizes, the same assignments with the same multiplicities, and
  each index entry is the flat list restricted to its key, in insertion order.
\<close>

definition indexes_agree :: "schedule \<Rightarrow> bool" where
  "indexes_agree sc \<longleftrightarrow>
     length (assignments sc) = total_len (staff_assignments sc) \<and>
     length (assignments sc) = total_len (day_shift_assignments sc) \<and>
     mset (all_values (staff_assignments sc)) = mset (assignments sc) \<and>
     mset (all_values (day_shift_assignments sc)) = mset (assignments sc) \<and>
     (\<forall>k. get_list (staff_assignments sc) k = filter (\<lambda>a. staff_id a = k) (assignments sc)) \<and>
     (\<forall>k. get_list (day_shift_assignments sc) k =
            filter (\<lambda>a. (day a, shift_id a) = k) (assignments sc))"

text \<open>The number of committed assignments of a staff id to a shift id.\<close>

definition shift_count :: "schedule \<Rightarrow> string \<Rightarrow> string \<Rightarrow> int" where
  "shift_count sc sid k =
     int (length (filter (\<lambda>a. staff_id a = sid \<and> shift_id a = k) (assignments sc)))"

text \<open>
  A staff member with the fields the scheduler never reads set to fixed values: \<open>max_shifts\<close>,
  the two bounds on total minutes, \<open>min_consecutive_shifts\<close>, \<open>min_consecutive_days_off\<close>
  and \<open>max_weekends\<close>. Two instances differ in those fields only when everything else is equal
  and their staff lists are equal after this.
\<close>

definition unread_erased :: "staff_member \<Rightarrow> staff_member" where
  "unread_erased s =
     s\<lparr>max_shifts := 0, max_total_minutes := 0, min_total_minutes := 0,
       min_consecutive_shifts := 0, min_consecutive_days_off := 0, max_weekends := None\<rparr>"

definition same_enforced :: "instance_data \<Rightarrow> instance_data \<Rightarrow> bool" where
  "same_enforced inst inst' \<longleftrightarrow>
     shifts inst = shifts inst' \<and> days_off inst = days_off inst' \<and>
     cover_requirements inst = cover_requirements inst' \<and>
     map unread_erased (staff inst) = map unread_erased (staff inst')"

text \<open>
  The policy the specification describes for an unmet requirement, written from its words (it is
  not a function of the program): every requirement is processed whatever happened to the earlier
  ones, and the result is True when none was left unmet.
\<close>

fun spec_fill_every_requirement ::
  "instance_data \<Rightarrow> cover list \<Rightarrow> schedule \<Rightarrow> error + (bool \<times> schedule)" where
  "spec_fill_every_requirement inst [] sc = Inr (True, sc)"
| "spec_fill_every_requirement inst (req # reqs) sc =
     (if needed_for sc req \<le> 0 then spec_fill_every_requirement inst reqs sc
      else (case assign_staff inst req (staff inst) (needed_for sc req) sc of
              Inl e \<Rightarrow> Inl e
            | Inr (needed, sc') \<Rightarrow>
                (case spec_fill_every_requirement inst reqs sc' of
                   Inl e \<Rightarrow> Inl e
                 | Inr (ok, sc'') \<Rightarrow> Inr (ok \<and> needed \<le> 0, sc''))))"

text \<open>Every shift id in the assignments is the id of a shift of the instance.\<close>

definition shifts_known :: "instance_data \<Rightarrow> schedule \<Rightarrow> bool" where
  "shifts_known inst sc \<longleftrightarrow>
     (\<forall>a \<in> set (assignments sc). shift_id a \<in> sh_id ` set (shifts inst))"

subsection \<open>Instances used as examples\<close>

definition staff_line :: "string \<Rightarrow> (string \<rightharpoonup> int) \<Rightarrow> int \<Rightarrow> int \<Rightarrow> staff_member" where
  "staff_line sid limits most run =
     \<lparr>st_id = sid, shift_limits = limits, max_shifts = most, max_total_minutes = 4320,
      min_total_minutes = 3360, max_consecutive_shifts = run,
      min_consecutive_shifts = 1, min_consecutive_days_off = 1, max_weekends = None\<rparr>"

definition shift_line :: "string \<Rightarrow> string list \<Rightarrow> shift" where
  "shift_line sid forbidden = \<lparr>sh_id = sid, sh_length = 480, forbidden_following = forbidden\<rparr>"

definition cover_line :: "int \<Rightarrow> string \<Rightarrow> int \<Rightarrow> int \<Rightarrow> cover" where
  "cover_line d sid n w =
     \<lparr>cv_day = d, cv_shift_id = sid, requirement = n, weight_under = w, weight_over = 1\<rparr>"

definition assign :: "string \<Rightarrow> int \<Rightarrow> string \<Rightarrow> assignment" where
  "assign sid d k = \<lparr>staff_id = sid, day = d, shift_id = k\<rparr>"

text \<open>One staff member with at most two consecutive shifts, one shift, a requirement on each of
  three days.\<close>

definition three_days :: instance_data where
  "three_days =
     \<lparr>shifts = [shift_line ''D'' []],
      staff = [staff_line ''S1'' Map.empty 14 2],
      days_off = Map.empty,
      cover_requirements =
        [cover_line 0 ''D'' 1 10, cover_line 1 ''D'' 1 10, cover_line 2 ''D'' 1 10]\<rparr>"

definition two_of_three :: schedule where
  "two_of_three =
     \<lparr>assignments = [assign ''S1'' 0 ''D'', assign ''S1'' 1 ''D''],
      staff_assignments = [(''S1'', [assign ''S1'' 0 ''D'', assign ''S1'' 1 ''D''])],
      day_shift_assignments =
        [((0, ''D''), [assign ''S1'' 0 ''D'']), ((1, ''D''), [assign ''S1'' 1 ''D''])]\<rparr>"

text \<open>The same (day, shift) in two requirements, the second asking for one more.\<close>

definition same_slot_twice :: instance_data where
  "same_slot_twice =
     \<lparr>shifts = [shift_line ''D'' []],
      staff = [staff_line ''S1'' Map.empty 14 5],
      days_off = Map.empty,
      cover_requirements = [cover_line 0 ''D'' 1 10, cover_line 0 ''D'' 2 5]\<rparr>"

definition twice_assigned :: schedule where
  "twice_assigned =
     \<lparr>assignments = [assign ''S1'' 0 ''D'', assign ''S1'' 0 ''D''],
      staff_assignments = [(''S1'', [assign ''S1'' 0 ''D'', assign ''S1'' 0 ''D''])],
      day_shift_assignments = [((0, ''D''), [assign ''S1'' 0 ''D'', assign ''S1'' 0 ''D''])]\<rparr>"

text \<open>Two staff members, the first one off on day 0.\<close>

definition one_day_off :: instance_data where
  "one_day_off =
     \<lparr>shifts = [shift_line ''D'' []],
      staff = [staff_line ''S1'' Map.empty 14 5, staff_line ''S2'' Map.empty 14 5],
      days_off = [''S1'' \<mapsto> [0]],
      cover_requirements = [cover_line 0 ''D'' 1 10, cover_line 1 ''D'' 1 5]\<rparr>"

definition second_steps_in :: schedule where
  "second_steps_in =
     \<lparr>assignments = [assign ''S2'' 0 ''D'', assign ''S1'' 1 ''D''],
      staff_assignments = [(''S2'', [assign ''S2'' 0 ''D'']), (''S1'', [assign ''S1'' 1 ''D''])],
      day_shift_assignments =
        [((0, ''D''), [assign ''S2'' 0 ''D'']), ((1, ''D''), [assign ''S1'' 1 ''D''])]\<rparr>"

text \<open>One staff member who may work shift D once, and two days that ask for D.\<close>

definition quota_one :: instance_data where
  "quota_one =
     \<lparr>shifts = [shift_line ''D'' []],
      staff = [staff_line ''S1'' [''D'' \<mapsto> 1] 14 5],
      days_off = Map.empty,
      cover_requirements = [cover_line 0 ''D'' 1 10, cover_line 2 ''D'' 1 5]\<rparr>"

definition one_assigned :: schedule where
  "one_assigned =
     \<lparr>assignments = [assign ''S1'' 0 ''D''],
      staff_assignments = [(''S1'', [assign ''S1'' 0 ''D''])],
      day_shift_assignments = [((0, ''D''), [assign ''S1'' 0 ''D''])]\<rparr>"

text \<open>The three days again, and a requirement of less weight on day 4.\<close>

definition four_days :: instance_data where
  "four_days =
     \<lparr>shifts = [shift_line ''D'' []],
      staff = [staff_line ''S1'' Map.empty 14 2],
      days_off = Map.empty,
      cover_requirements =
        [cover_line 0 ''D'' 1 10, cover_line 1 ''D'' 1 10, cover_line 2 ''D'' 1 10,
         cover_line 4 ''D'' 1 5]\<rparr>"

definition three_of_four :: schedule where
  "three_of_four =
     \<lparr>assignments = [assign ''S1'' 0 ''D'', assign ''S1'' 1 ''D'', assign ''S1'' 4 ''D''],
      staff_assignments =
        [(''S1'', [assign ''S1'' 0 ''D'', assign ''S1'' 1 ''D'', assign ''S1'' 4 ''D''])],
      day_shift_assignments =
        [((0, ''D''), [assign ''S1'' 0 ''D'']), ((1, ''D''), [assign ''S1'' 1 ''D'']),
         ((4, ''D''), [assign ''S1'' 4 ''D''])]\<rparr>"

text \<open>Shift B must not follow shift A; the requirement of day 1 weighs more than that of day 0.\<close>

definition night_before :: instance_data where
  "night_before =
     \<lparr>shifts = [shift_line ''A'' [''B''], shift_line ''B'' []],
      staff = [staff_line ''S1'' Map.empty 14 5],
      days_off = Map.empty,
      cover_requirements = [cover_line 0 ''A'' 1 5, cover_line 1 ''B'' 1 10]\<rparr>"

definition b_then_a :: schedule where
  "b_then_a =
     \<lparr>assignments = [assign ''S1'' 1 ''B'', assign ''S1'' 0 ''A''],
      staff_assignments = [(''S1'', [assign ''S1'' 1 ''B'', assign ''S1'' 0 ''A''])],
      day_shift_assignments =
        [((1, ''B''), [assign ''S1'' 1 ''B'']), ((0, ''A''), [assign ''S1'' 0 ''A''])]\<rparr>"

text \<open>Shift B must not follow shift A; day 0, then day 5, then day 1 by weight.\<close>

definition day_five_between :: instance_data where
  "day_five_between =
     \<lparr>shifts = [shift_line ''A'' [''B''], shift_line ''B'' []],
      staff = [staff_line ''S1'' Map.empty 14 5],
      days_off = Map.empty,
      cover_requirements =
        [cover_line 0 ''A'' 1 10, cover_line 1 ''B'' 1 8, cover_line 5 ''B'' 1 9]\<rparr>"

definition a_five_b :: schedule where
  "a_five_b =
     \<lparr>assignments = [assign ''S1'' 0 ''A'', assign ''S1'' 5 ''B'', assign ''S1'' 1 ''B''],
      staff_assignments =
        [(''S1'', [assign ''S1'' 0 ''A'', assign ''S1'' 5 ''B'', assign ''S1'' 1 ''B''])],
      day_shift_assignments =
        [((0, ''A''), [assign ''S1'' 0 ''A'']), ((5, ''B''), [assign ''S1'' 5 ''B'']),
         ((1, ''B''), [assign ''S1'' 1 ''B''])]\<rparr>"

text \<open>At most one consecutive shift; the requirement of day 1 weighs more than that of day 0.\<close>

definition later_day_first :: instance_data where
  "later_day_first =
     \<lparr>shifts = [shift_line ''D'' []],
      staff = [staff_line ''S1'' Map.empty 14 1],
      days_off = Map.empty,
      cover_requirements = [cover_line 0 ''D'' 1 5, cover_line 1 ''D'' 1 10]\<rparr>"

definition one_then_zero :: schedule where
  "one_then_zero =
     \<lparr>assignments = [assign ''S1'' 1 ''D'', assign ''S1'' 0 ''D''],
      staff_assignments = [(''S1'', [assign ''S1'' 1 ''D'', assign ''S1'' 0 ''D''])],
      day_shift_assignments =
        [((1, ''D''), [assign ''S1'' 1 ''D'']), ((0, ''D''), [assign ''S1'' 0 ''D''])]\<rparr>"

text \<open>A staff member whose \<open>max_shifts\<close> is 1, asked for on two days; and the same instance with
  other values in the fields the scheduler never reads.\<close>

definition one_shift_allowed :: instance_data where
  "one_shift_allowed =
     \<lparr>shifts = [shift_line ''D'' []],
      staff = [staff_line ''S1'' Map.empty 1 2],
      days_off = Map.empty,
      cover_requirements = [cover_line 0 ''D'' 1 10, cover_line 1 ''D'' 1 10]\<rparr>"

definition many_shifts_allowed :: instance_data where
  "many_shifts_allowed =
     \<lparr>shifts = [shift_line ''D'' []],
      staff =
        [\<lparr>st_id = ''S1'', shift_limits = Map.empty, max_shifts = 14, max_total_minutes = 960,
          min_total_minutes = 0, max_consecutive_shifts = 2, min_consecutive_shifts = 2,
          min_consecutive_days_off = 3, max_weekends = Some 1\<rparr>],
      days_off = Map.empty,
      cover_requirements = [cover_line 0 ''D'' 1 10, cover_line 1 ''D'' 1 10]\<rparr>"

text \<open>A cap below zero: the staff file line \<open>S1,D=-1,...\<close> is read without complaint.\<close>

definition negative_cap :: instance_data where
  "negative_cap =
     \<lparr>shifts = [shift_line ''D'' []],
      staff = [staff_line ''S1'' [''D'' \<mapsto> - 1] 14 5],
      days_off = Map.empty,
      cover_requirements = [cover_line 0 ''D'' 1 10]\<rparr>"

text \<open>The four days with a shift X on day 4 that the shift table does not have.\<close>

definition unknown_shift_later :: instance_data where
  "unknown_shift_later =
     \<lparr>shifts = [shift_line ''D'' []],
      staff = [staff_line ''S1'' Map.empty 14 2],
      days_off = Map.empty,
      cover_requirements =
        [cover_line 0 ''D'' 1 10, cover_line 1 ''D'' 1 10, cover_line 2 ''D'' 1 10,
         cover_line 4 ''X'' 1 5]\<rparr>"

text \<open>A requirement for the unknown shift X on day 0, and one for D on the next day.\<close>

definition unknown_shift_first :: instance_data where
  "unknown_shift_first =
     \<lparr>shifts = [shift_line ''D'' []],
      staff = [staff_line ''S1'' Map.empty 14 2],
      days_off = Map.empty,
      cover_requirements = [cover_line 0 ''X'' 1 10, cover_line 1 ''D'' 1 5]\<rparr>"

section \<open>Evaluation and the dictionaries of lists\<close>

lemmas instance_defs =
  staff_line_def shift_line_def cover_line_def assign_def

lemmas schedule_defs =
  init_schedule_def needed_for_def is_valid_assignment_def find_staff_def is_day_off_def
  limit_reached_def current_count_def forbidden_after_last_def consecutive_count_def commit_def
  potential_assignment_def shifts_dict_def Let_def upto.simps

lemma get_list_append_at:
  "get_list (append_at k v d) k' = (if k' = k then get_list d k @ [v] else get_list d k')"
  by (induction d) auto

lemma total_len_append_at: "total_len (append_at k v d) = Suc (total_len d)"
  by (induction d) (auto simp: total_len_def)

lemma mset_all_values_append_at:
  "mset (all_values (append_at k v d)) = add_mset v (mset (all_values d))"
  by (induction d) (auto simp: all_values_def)

lemma total_len_all_values: "total_len d = length (all_values d)"
  by (induction d) (auto simp: total_len_def all_values_def)

lemma indexes_agree_init: "indexes_agree init_schedule"
  by (simp add: indexes_agree_def init_schedule_def total_len_def all_values_def)

lemma indexes_agree_commit: "indexes_agree sc \<Longrightarrow> indexes_agree (commit sc a)"
  by (auto simp: indexes_agree_def commit_def total_len_append_at mset_all_values_append_at
        get_list_append_at)

section \<open>Every schedule of a run is reachable\<close>

lemma assign_staff_reachable:
  "reachable inst sc \<Longrightarrow> set ss \<subseteq> set (staff inst) \<Longrightarrow> req \<in> set (cover_requirements inst) \<Longrightarrow>
   assign_staff inst req ss needed sc = Inr (needed', sc') \<Longrightarrow> reachable inst sc'"
proof (induction ss arbitrary: needed sc)
  case Nil
  then show ?case by simp
next
  case (Cons s ss)
  show ?case
  proof (cases "needed \<le> 0")
    case True
    with Cons.prems show ?thesis by simp
  next
    case False
    show ?thesis
    proof (cases "is_valid_assignment inst sc (potential_assignment s req)")
      case (Inl e)
      with False Cons.prems show ?thesis by simp
    next
      case (Inr accepted)
      show ?thesis
      proof (cases accepted)
        case True
        have "reachable inst (commit sc (potential_assignment s req))"
          using Cons.prems Inr True by (auto intro: reach_commit)
        moreover have "assign_staff inst req ss (needed - 1) (commit sc (potential_assignment s req))
            = Inr (needed', sc')"
          using Cons.prems False Inr True by simp
        ultimately show ?thesis using Cons.IH Cons.prems by auto
      next
        case rejected: False
        have "assign_staff inst req ss needed sc = Inr (needed', sc')"
          using Cons.prems False Inr rejected by simp
        then show ?thesis using Cons.IH Cons.prems by auto
      qed
    qed
  qed
qed

lemma fill_requirements_reachable:
  "reachable inst sc \<Longrightarrow> set reqs \<subseteq> set (cover_requirements inst) \<Longrightarrow>
   fill_requirements inst reqs sc = Inr (ok, sc') \<Longrightarrow> reachable inst sc'"
proof (induction reqs arbitrary: sc)
  case Nil
  then show ?case by simp
next
  case (Cons req reqs)
  show ?case
  proof (cases "needed_for sc req \<le> 0")
    case True
    with Cons show ?thesis by simp
  next
    case False
    then obtain n sc1 where
      run: "assign_staff inst req (staff inst) (needed_for sc req) sc = Inr (n, sc1)"
      using Cons.prems(3) by (auto split: sum.splits)
    have r1: "reachable inst sc1"
      using assign_staff_reachable[OF Cons.prems(1) _ _ run] Cons.prems(2) by simp
    show ?thesis
    proof (cases "n > 0")
      case True
      with False run Cons.prems(3) have "sc' = sc1" by simp
      with r1 show ?thesis by simp
    next
      case filled: False
      with False run Cons.prems(3) have "fill_requirements inst reqs sc1 = Inr (ok, sc')"
        by simp
      with Cons.IH[OF r1] Cons.prems(2) show ?thesis by simp
    qed
  qed
qed

lemma set_sorted_requirements: "set (sorted_requirements inst) = set (cover_requirements inst)"
  by (simp add: sorted_requirements_def)

lemma greedy_schedule_reachable: "greedy_schedule inst = Inr (ok, sc) \<Longrightarrow> reachable inst sc"
  unfolding greedy_schedule_def
  using fill_requirements_reachable[OF reach_init, of "sorted_requirements inst" inst ok sc]
  by (simp add: set_sorted_requirements)

lemma reachable_indexes_agree: "reachable inst sc \<Longrightarrow> indexes_agree sc"
  by (induction rule: reachable.induct) (auto intro: indexes_agree_init indexes_agree_commit)

section \<open>The scenario of three days (C6)\<close>

lemma sorted_three_days:
  "sorted_requirements three_days =
     [cover_line 0 ''D'' 1 10, cover_line 1 ''D'' 1 10, cover_line 2 ''D'' 1 10]"
  by (simp add: sorted_requirements_def three_days_def cover_line_def)

lemma greedy_three_days: "greedy_schedule three_days = Inr (False, two_of_three)"
  unfolding greedy_schedule_def sorted_three_days
  by (simp add: three_days_def two_of_three_def instance_defs schedule_defs)

text \<open>
  C6. With one staff member S1 (no quotas, at most 2 consecutive shifts, no days off), one shift D
  that forbids nothing, and the requirements (day 0, D, 1, 10), (day 1, D, 1, 10), (day 2, D, 1, 10),
  greedy fill assigns S1 to day 0 and to day 1; the candidate of day 2 passes the days-off, quota
  and succession checks and fails the consecutive-run check (the run would be 3, the limit is 2);
  the requirement of day 2 still needs 1; the result is False with exactly 2 assignments.
\<close>

theorem three_days_scenario:
  "greedy_schedule three_days = Inr (False, two_of_three) \<and>
   assignments two_of_three = [assign ''S1'' 0 ''D'', assign ''S1'' 1 ''D''] \<and>
   length (assignments two_of_three) = 2 \<and>
   find_staff three_days ''S1'' = Some (staff_line ''S1'' Map.empty 14 2) \<and>
   is_day_off three_days (assign ''S1'' 2 ''D'') = False \<and>
   limit_reached (staff_line ''S1'' Map.empty 14 2) two_of_three (assign ''S1'' 2 ''D'') = False \<and>
   forbidden_after_last three_days two_of_three (assign ''S1'' 2 ''D'') = Inr False \<and>
   consecutive_count two_of_three (assign ''S1'' 2 ''D'') = 3 \<and>
   max_consecutive_shifts (staff_line ''S1'' Map.empty 14 2) = 2 \<and>
   is_valid_assignment three_days two_of_three (assign ''S1'' 2 ''D'') = Inr False \<and>
   needed_for two_of_three (cover_line 2 ''D'' 1 10) = 1"
  using greedy_three_days
  by (simp add: three_days_def two_of_three_def instance_defs schedule_defs)

section \<open>The three structures move together (C5)\<close>

lemma sorted_same_slot_twice:
  "sorted_requirements same_slot_twice = [cover_line 0 ''D'' 1 10, cover_line 0 ''D'' 2 5]"
  by (simp add: sorted_requirements_def same_slot_twice_def cover_line_def)

lemma greedy_same_slot_twice: "greedy_schedule same_slot_twice = Inr (True, twice_assigned)"
  unfolding greedy_schedule_def sorted_same_slot_twice
  by (simp add: same_slot_twice_def twice_assigned_def instance_defs schedule_defs)

text \<open>
  C5, as stated, fails in its "exactly once". An Assignment is the triple (staff id, day, shift
  id), compared by its fields. With the requirements (day 0, D, 1, 10) and (day 0, D, 2, 5) and the
  single staff member S1, the second requirement still needs one, S1 is tried again and the
  predicate accepts: no check looks for an assignment of S1 on the candidate's own day. The run
  succeeds and the Assignment (S1, 0, D) stands twice in the flat list, twice in the list of S1 and
  twice in the list of (0, D).
\<close>

theorem same_assignment_twice:
  "greedy_schedule same_slot_twice = Inr (True, twice_assigned) \<and>
   count_list (assignments twice_assigned) (assign ''S1'' 0 ''D'') = 2 \<and>
   count_list (get_list (staff_assignments twice_assigned) ''S1'') (assign ''S1'' 0 ''D'') = 2 \<and>
   count_list (get_list (day_shift_assignments twice_assigned) (0, ''D'')) (assign ''S1'' 0 ''D'') = 2"
  using greedy_same_slot_twice by (simp add: twice_assigned_def assign_def)

text \<open>
  C5, amended. The empty schedule has agreeing structures; one insertion appends the candidate to
  the flat list, to the list of its staff id and to the list of its (day, shift), and keeps the
  structures agreeing; so they agree in every reachable schedule and at the end of every run that
  returns. Agreeing (\<open>indexes_agree\<close>) is: the flat list is as long as the per-staff lists
  together and as the per-(day, shift) lists together, every Assignment occurs equally often in
  the flat list, in the per-staff index and in the per-(day, shift) index, and the list of a key is
  the flat list restricted to that key.
\<close>

theorem indexes_in_lock_step:
  "indexes_agree init_schedule \<and>
   (indexes_agree sc \<longrightarrow>
      indexes_agree (commit sc a) \<and>
      assignments (commit sc a) = assignments sc @ [a] \<and>
      get_list (staff_assignments (commit sc a)) (staff_id a) =
        get_list (staff_assignments sc) (staff_id a) @ [a] \<and>
      get_list (day_shift_assignments (commit sc a)) (day a, shift_id a) =
        get_list (day_shift_assignments sc) (day a, shift_id a) @ [a]) \<and>
   (reachable inst sc \<longrightarrow> indexes_agree sc) \<and>
   (greedy_schedule inst = Inr (ok, sc) \<longrightarrow> indexes_agree sc)"
proof -
  have "indexes_agree sc \<Longrightarrow> indexes_agree (commit sc a)"
    by (rule indexes_agree_commit)
  moreover have "reachable inst sc \<Longrightarrow> indexes_agree sc"
    by (rule reachable_indexes_agree)
  moreover have "greedy_schedule inst = Inr (ok, sc) \<Longrightarrow> indexes_agree sc"
    by (rule reachable_indexes_agree[OF greedy_schedule_reachable])
  moreover have "assignments (commit sc a) = assignments sc @ [a]"
    by (simp add: commit_def)
  moreover have "get_list (staff_assignments (commit sc a)) (staff_id a) =
      get_list (staff_assignments sc) (staff_id a) @ [a]"
    by (simp add: commit_def get_list_append_at)
  moreover have "get_list (day_shift_assignments (commit sc a)) (day a, shift_id a) =
      get_list (day_shift_assignments sc) (day a, shift_id a) @ [a]"
    by (simp add: commit_def get_list_append_at)
  ultimately show ?thesis
    using indexes_agree_init by blast
qed

theorem indexes_in_lock_step_witness:
  "indexes_agree init_schedule \<and>
   indexes_agree (commit init_schedule (assign ''S1'' 0 ''D'')) \<and>
   assignments (commit init_schedule (assign ''S1'' 0 ''D'')) =
     assignments init_schedule @ [assign ''S1'' 0 ''D''] \<and>
   reachable same_slot_twice twice_assigned \<and>
   greedy_schedule same_slot_twice = Inr (True, twice_assigned) \<and>
   indexes_agree twice_assigned \<and>
   length (assignments twice_assigned) = 2 \<and>
   total_len (staff_assignments twice_assigned) = 2 \<and>
   total_len (day_shift_assignments twice_assigned) = 2"
proof -
  have run: "greedy_schedule same_slot_twice = Inr (True, twice_assigned)"
    by (rule greedy_same_slot_twice)
  have reach: "reachable same_slot_twice twice_assigned"
    by (rule greedy_schedule_reachable[OF run])
  have sizes: "length (assignments twice_assigned) = 2 \<and>
      total_len (staff_assignments twice_assigned) = 2 \<and>
      total_len (day_shift_assignments twice_assigned) = 2"
    by (simp add: twice_assigned_def total_len_def)
  have start: "indexes_agree init_schedule \<and>
      indexes_agree (commit init_schedule (assign ''S1'' 0 ''D'')) \<and>
      assignments (commit init_schedule (assign ''S1'' 0 ''D'')) =
        assignments init_schedule @ [assign ''S1'' 0 ''D'']"
    using indexes_in_lock_step[where sc = init_schedule and a = "assign ''S1'' 0 ''D''"]
    by blast
  have finish: "indexes_agree twice_assigned"
    using indexes_in_lock_step[where sc = twice_assigned and inst = same_slot_twice and ok = True]
      run
    by blast
  show ?thesis
    using run reach sizes start finish by simp
qed

section \<open>Days off (C8)\<close>

lemma valid_not_day_off: "is_valid_assignment inst sc a = Inr True \<Longrightarrow> \<not> is_day_off inst a"
  by (auto simp: is_valid_assignment_def split: option.splits if_splits)

lemma reachable_no_day_off:
  "reachable inst sc \<Longrightarrow> a \<in> set (assignments sc) \<Longrightarrow> \<not> is_day_off inst a"
proof (induction rule: reachable.induct)
  case reach_init
  then show ?case by (simp add: init_schedule_def)
next
  case (reach_commit sc s req)
  then show ?case using valid_not_day_off by (auto simp: commit_def)
qed

lemma sorted_one_day_off:
  "sorted_requirements one_day_off = [cover_line 0 ''D'' 1 10, cover_line 1 ''D'' 1 5]"
  by (simp add: sorted_requirements_def one_day_off_def cover_line_def)

lemma greedy_one_day_off: "greedy_schedule one_day_off = Inr (True, second_steps_in)"
  unfolding greedy_schedule_def sorted_one_day_off
  by (simp add: one_day_off_def second_steps_in_def instance_defs schedule_defs)

text \<open>
  C8. For a candidate whose staff id is in the staff list: when the candidate's day is in the
  days-off list of its staff id, the predicate returns False. No assignment of a reachable
  schedule, and none of the schedule a run of greedy fill ends with, has its day in the days-off
  list of its staff id.
\<close>

theorem days_off_excluded:
  "(find_staff inst (staff_id a) = Some s \<longrightarrow> days_off inst (staff_id a) = Some ds \<longrightarrow>
      day a \<in> set ds \<longrightarrow> is_valid_assignment inst sc a = Inr False) \<and>
   (reachable inst sc \<longrightarrow> b \<in> set (assignments sc) \<longrightarrow>
      days_off inst (staff_id b) = Some ds' \<longrightarrow> day b \<notin> set ds') \<and>
   (greedy_schedule inst = Inr (ok, sc) \<longrightarrow> b \<in> set (assignments sc) \<longrightarrow>
      days_off inst (staff_id b) = Some ds' \<longrightarrow> day b \<notin> set ds')"
proof -
  have "is_valid_assignment inst sc a = Inr False"
    if "find_staff inst (staff_id a) = Some s" "days_off inst (staff_id a) = Some ds" "day a \<in> set ds"
    using that by (simp add: is_valid_assignment_def is_day_off_def)
  moreover have "day b \<notin> set ds'"
    if "reachable inst sc" "b \<in> set (assignments sc)" "days_off inst (staff_id b) = Some ds'"
    using reachable_no_day_off[OF that(1,2)] that(3) by (simp add: is_day_off_def)
  moreover have "day b \<notin> set ds'"
    if "greedy_schedule inst = Inr (ok, sc)" "b \<in> set (assignments sc)"
      "days_off inst (staff_id b) = Some ds'"
    using reachable_no_day_off[OF greedy_schedule_reachable[OF that(1)] that(2)] that(3)
    by (simp add: is_day_off_def)
  ultimately show ?thesis by blast
qed

theorem days_off_excluded_witness:
  "find_staff one_day_off (staff_id (assign ''S1'' 0 ''D'')) = Some (staff_line ''S1'' Map.empty 14 5) \<and>
   days_off one_day_off (staff_id (assign ''S1'' 0 ''D'')) = Some [0] \<and>
   day (assign ''S1'' 0 ''D'') \<in> set [0] \<and>
   is_valid_assignment one_day_off init_schedule (assign ''S1'' 0 ''D'') = Inr False \<and>
   reachable one_day_off second_steps_in \<and>
   greedy_schedule one_day_off = Inr (True, second_steps_in) \<and>
   assign ''S1'' 1 ''D'' \<in> set (assignments second_steps_in) \<and>
   days_off one_day_off (staff_id (assign ''S1'' 1 ''D'')) = Some [0] \<and>
   day (assign ''S1'' 1 ''D'') \<notin> set [0]"
proof -
  have run: "greedy_schedule one_day_off = Inr (True, second_steps_in)"
    by (rule greedy_one_day_off)
  have reach: "reachable one_day_off second_steps_in"
    by (rule greedy_schedule_reachable[OF run])
  have given: "find_staff one_day_off (staff_id (assign ''S1'' 0 ''D'')) =
        Some (staff_line ''S1'' Map.empty 14 5) \<and>
      days_off one_day_off (staff_id (assign ''S1'' 0 ''D'')) = Some [0] \<and>
      day (assign ''S1'' 0 ''D'') \<in> set [0] \<and>
      assign ''S1'' 1 ''D'' \<in> set (assignments second_steps_in) \<and>
      days_off one_day_off (staff_id (assign ''S1'' 1 ''D'')) = Some [0]"
    by (simp add: one_day_off_def second_steps_in_def find_staff_def instance_defs)
  show ?thesis
    using days_off_excluded[where inst = one_day_off and a = "assign ''S1'' 0 ''D''"
        and s = "staff_line ''S1'' Map.empty 14 5" and ds = "[0]" and sc = init_schedule]
      days_off_excluded[where inst = one_day_off and sc = second_steps_in
        and b = "assign ''S1'' 1 ''D''" and ds' = "[0]" and ok = True]
      run reach given
    by simp
qed

section \<open>Shift quotas (C7)\<close>

lemma valid_below_limit:
  "is_valid_assignment inst sc a = Inr True \<Longrightarrow> find_staff inst (staff_id a) = Some s \<Longrightarrow>
   shift_limits s (shift_id a) = Some cap \<Longrightarrow> current_count sc a < cap"
  by (auto simp: is_valid_assignment_def limit_reached_def split: option.splits if_splits)

lemma current_count_shift_count:
  "indexes_agree sc \<Longrightarrow> current_count sc a = shift_count sc (staff_id a) (shift_id a)"
  by (simp add: indexes_agree_def current_count_def shift_count_def conj_commute)

lemma shift_count_commit:
  "shift_count (commit sc a) sid k =
     (if staff_id a = sid \<and> shift_id a = k then shift_count sc sid k + 1 else shift_count sc sid k)"
  by (simp add: shift_count_def commit_def)

lemma reachable_shift_count:
  "reachable inst sc \<Longrightarrow> find_staff inst sid = Some s \<Longrightarrow> shift_limits s k = Some cap \<Longrightarrow>
   0 \<le> cap \<Longrightarrow> shift_count sc sid k \<le> cap"
proof (induction rule: reachable.induct)
  case reach_init
  then show ?case by (simp add: shift_count_def init_schedule_def)
next
  case (reach_commit sc s' req)
  let ?a = "potential_assignment s' req"
  show ?case
  proof (cases "staff_id ?a = sid \<and> shift_id ?a = k")
    case True
    have "current_count sc ?a < cap"
      using valid_below_limit[OF reach_commit.hyps(4)] True reach_commit.prems by simp
    moreover have "current_count sc ?a = shift_count sc sid k"
      using current_count_shift_count[OF reachable_indexes_agree[OF reach_commit.hyps(1)], of ?a] True
      by simp
    ultimately show ?thesis using True by (simp add: shift_count_commit)
  next
    case False
    then show ?thesis using reach_commit by (auto simp: shift_count_commit)
  qed
qed

lemma find_distinct:
  "distinct (map f xs) \<Longrightarrow> x \<in> set xs \<Longrightarrow> find (\<lambda>y. f y = f x) xs = Some x"
  by (induction xs) auto

lemma find_staff_distinct:
  "distinct (map st_id (staff inst)) \<Longrightarrow> s \<in> set (staff inst) \<Longrightarrow>
   find_staff inst (st_id s) = Some s"
  unfolding find_staff_def by (rule find_distinct)

lemma sorted_quota_one:
  "sorted_requirements quota_one = [cover_line 0 ''D'' 1 10, cover_line 2 ''D'' 1 5]"
  by (simp add: sorted_requirements_def quota_one_def cover_line_def)

lemma greedy_quota_one: "greedy_schedule quota_one = Inr (False, one_assigned)"
  unfolding greedy_schedule_def sorted_quota_one
  by (simp add: quota_one_def one_assigned_def instance_defs schedule_defs)

lemma reachable_shift_count_max:
  "reachable inst sc \<Longrightarrow> find_staff inst sid = Some s \<Longrightarrow> shift_limits s k = Some cap \<Longrightarrow>
   shift_count sc sid k \<le> max 0 cap"
proof (induction rule: reachable.induct)
  case reach_init
  then show ?case by (simp add: shift_count_def init_schedule_def)
next
  case (reach_commit sc s' req)
  let ?a = "potential_assignment s' req"
  show ?case
  proof (cases "staff_id ?a = sid \<and> shift_id ?a = k")
    case True
    have "current_count sc ?a < cap"
      using valid_below_limit[OF reach_commit.hyps(4)] True reach_commit.prems by simp
    moreover have "current_count sc ?a = shift_count sc sid k"
      using current_count_shift_count[OF reachable_indexes_agree[OF reach_commit.hyps(1)], of ?a] True
      by simp
    ultimately show ?thesis using True by (simp add: shift_count_commit)
  next
    case False
    then show ?thesis using reach_commit by (auto simp: shift_count_commit)
  qed
qed

lemma reachable_shift_count_negative:
  assumes "reachable inst sc" "find_staff inst sid = Some s" "shift_limits s k = Some cap" "cap < 0"
  shows "shift_count sc sid k = 0"
proof -
  have "shift_count sc sid k \<le> max 0 cap"
    using reachable_shift_count_max[OF assms(1-3)] .
  moreover have "0 \<le> shift_count sc sid k"
    by (simp add: shift_count_def)
  ultimately show ?thesis using assms(4) by simp
qed

lemma greedy_negative_cap: "greedy_schedule negative_cap = Inr (False, init_schedule)"
  unfolding greedy_schedule_def
  by (simp add: sorted_requirements_def negative_cap_def instance_defs schedule_defs)

text \<open>
  C7, as stated, fails in "never exceeds the cap" when the cap is below zero. The quota mapping
  \<open>D=-1\<close> is read like any other; the check then rejects every candidate for D, the run ends
  with the empty schedule, and the count 0 of the pair (S1, D) exceeds the cap -1.
\<close>

theorem negative_cap_exceeded:
  "greedy_schedule negative_cap = Inr (False, init_schedule) \<and>
   reachable negative_cap init_schedule \<and>
   find_staff negative_cap ''S1'' = Some (staff_line ''S1'' [''D'' \<mapsto> - 1] 14 5) \<and>
   staff_line ''S1'' [''D'' \<mapsto> - 1] 14 5 \<in> set (staff negative_cap) \<and>
   shift_limits (staff_line ''S1'' [''D'' \<mapsto> - 1] 14 5) ''D'' = Some (- 1) \<and>
   shift_count init_schedule ''S1'' ''D'' = 0 \<and>
   \<not> shift_count init_schedule ''S1'' ''D'' \<le> - 1"
  using greedy_negative_cap reach_init[of negative_cap]
  by (simp add: negative_cap_def instance_defs find_staff_def shift_count_def init_schedule_def)

text \<open>
  C7, amended. For a candidate whose staff member \<open>s\<close> has the cap \<open>cap\<close> for the candidate's
  shift id, the quota check rejects exactly when the staff member's assignments of that shift id
  already number \<open>cap\<close> or more, and then the predicate returns False; when the three other
  checks pass, the predicate returns False exactly when the count has reached the cap and True
  exactly when it is below. A shift id without an entry in \<open>shift_limits\<close> is never blocked by
  the quota check: the predicate accepts such a candidate whenever the three other checks pass.
  In a reachable schedule the number the check counts in the per-staff index is the number of
  committed assignments of the (staff, shift) pair; with a cap of at least 0 that number does not
  exceed the cap, and with a cap below 0 it is 0. This holds for the staff member the predicate
  finds under a staff id, and so, when staff ids are unique, for every staff member of the list,
  also at the end of a run.
\<close>

theorem quota_respected:
  "(find_staff inst (staff_id a) = Some s \<longrightarrow> shift_limits s (shift_id a) = Some cap \<longrightarrow>
      (limit_reached s sc a \<longleftrightarrow> cap \<le> current_count sc a) \<and>
      (cap \<le> current_count sc a \<longrightarrow> is_valid_assignment inst sc a = Inr False) \<and>
      (is_valid_assignment inst sc a = Inr True \<longrightarrow> current_count sc a < cap)) \<and>
   (find_staff inst (staff_id a) = Some s \<longrightarrow> shift_limits s (shift_id a) = Some cap \<longrightarrow>
    \<not> is_day_off inst a \<longrightarrow> forbidden_after_last inst sc a = Inr False \<longrightarrow>
    consecutive_count sc a \<le> max_consecutive_shifts s \<longrightarrow>
      (is_valid_assignment inst sc a = Inr False \<longleftrightarrow> cap \<le> current_count sc a) \<and>
      (is_valid_assignment inst sc a = Inr True \<longleftrightarrow> current_count sc a < cap)) \<and>
   (shift_limits s (shift_id a) = None \<longrightarrow> \<not> limit_reached s sc a) \<and>
   (find_staff inst (staff_id a) = Some s \<longrightarrow> shift_limits s (shift_id a) = None \<longrightarrow>
    \<not> is_day_off inst a \<longrightarrow> forbidden_after_last inst sc a = Inr False \<longrightarrow>
    consecutive_count sc a \<le> max_consecutive_shifts s \<longrightarrow>
      is_valid_assignment inst sc a = Inr True) \<and>
   (reachable inst sc \<longrightarrow> current_count sc a = shift_count sc (staff_id a) (shift_id a)) \<and>
   (reachable inst sc \<longrightarrow> find_staff inst sid = Some m \<longrightarrow> shift_limits m k = Some c \<longrightarrow>
      0 \<le> c \<longrightarrow> shift_count sc sid k \<le> c) \<and>
   (reachable inst sc \<longrightarrow> find_staff inst sid = Some m \<longrightarrow> shift_limits m k = Some c \<longrightarrow>
      c < 0 \<longrightarrow> shift_count sc sid k = 0) \<and>
   (reachable inst sc \<longrightarrow> distinct (map st_id (staff inst)) \<longrightarrow> m \<in> set (staff inst) \<longrightarrow>
      shift_limits m k = Some c \<longrightarrow> 0 \<le> c \<longrightarrow> shift_count sc (st_id m) k \<le> c) \<and>
   (greedy_schedule inst = Inr (ok, sc) \<longrightarrow> distinct (map st_id (staff inst)) \<longrightarrow>
      m \<in> set (staff inst) \<longrightarrow> shift_limits m k = Some c \<longrightarrow> 0 \<le> c \<longrightarrow>
      shift_count sc (st_id m) k \<le> c)"
proof -
  have check: "(limit_reached s sc a \<longleftrightarrow> cap \<le> current_count sc a) \<and>
      (cap \<le> current_count sc a \<longrightarrow> is_valid_assignment inst sc a = Inr False) \<and>
      (is_valid_assignment inst sc a = Inr True \<longrightarrow> current_count sc a < cap)"
    if "find_staff inst (staff_id a) = Some s" "shift_limits s (shift_id a) = Some cap"
    using that by (auto simp: is_valid_assignment_def limit_reached_def)
  have exact: "(is_valid_assignment inst sc a = Inr False \<longleftrightarrow> cap \<le> current_count sc a) \<and>
      (is_valid_assignment inst sc a = Inr True \<longleftrightarrow> current_count sc a < cap)"
    if "find_staff inst (staff_id a) = Some s" "shift_limits s (shift_id a) = Some cap"
      "\<not> is_day_off inst a" "forbidden_after_last inst sc a = Inr False"
      "consecutive_count sc a \<le> max_consecutive_shifts s"
    using that by (auto simp: is_valid_assignment_def limit_reached_def)
  have absent: "\<not> limit_reached s sc a" if "shift_limits s (shift_id a) = None"
    using that by (simp add: limit_reached_def)
  have free: "is_valid_assignment inst sc a = Inr True"
    if "find_staff inst (staff_id a) = Some s" "shift_limits s (shift_id a) = None"
      "\<not> is_day_off inst a" "forbidden_after_last inst sc a = Inr False"
      "consecutive_count sc a \<le> max_consecutive_shifts s"
    using that by (simp add: is_valid_assignment_def limit_reached_def)
  have same: "current_count sc a = shift_count sc (staff_id a) (shift_id a)" if "reachable inst sc"
    using current_count_shift_count[OF reachable_indexes_agree[OF that]] .
  have found: "shift_count sc sid k \<le> c"
    if "reachable inst sc" "find_staff inst sid = Some m" "shift_limits m k = Some c" "0 \<le> c"
    using reachable_shift_count[OF that] .
  have none: "shift_count sc sid k = 0"
    if "reachable inst sc" "find_staff inst sid = Some m" "shift_limits m k = Some c" "c < 0"
    using reachable_shift_count_negative[OF that] .
  have listed: "shift_count sc (st_id m) k \<le> c"
    if "reachable inst sc" "distinct (map st_id (staff inst))" "m \<in> set (staff inst)"
      "shift_limits m k = Some c" "0 \<le> c"
    using reachable_shift_count[OF that(1) find_staff_distinct[OF that(2,3)] that(4,5)] .
  have final: "shift_count sc (st_id m) k \<le> c"
    if "greedy_schedule inst = Inr (ok, sc)" "distinct (map st_id (staff inst))"
      "m \<in> set (staff inst)" "shift_limits m k = Some c" "0 \<le> c"
    using reachable_shift_count[OF greedy_schedule_reachable[OF that(1)]
        find_staff_distinct[OF that(2,3)] that(4,5)] .
  show ?thesis
    using check exact absent free same found none listed final by blast
qed

theorem quota_respected_witness:
  "find_staff quota_one (staff_id (assign ''S1'' 2 ''D'')) = Some (staff_line ''S1'' [''D'' \<mapsto> 1] 14 5) \<and>
   shift_limits (staff_line ''S1'' [''D'' \<mapsto> 1] 14 5) (shift_id (assign ''S1'' 2 ''D'')) = Some 1 \<and>
   1 \<le> current_count one_assigned (assign ''S1'' 2 ''D'') \<and>
   limit_reached (staff_line ''S1'' [''D'' \<mapsto> 1] 14 5) one_assigned (assign ''S1'' 2 ''D'') \<and>
   \<not> is_day_off quota_one (assign ''S1'' 2 ''D'') \<and>
   forbidden_after_last quota_one one_assigned (assign ''S1'' 2 ''D'') = Inr False \<and>
   consecutive_count one_assigned (assign ''S1'' 2 ''D'')
     \<le> max_consecutive_shifts (staff_line ''S1'' [''D'' \<mapsto> 1] 14 5) \<and>
   is_valid_assignment quota_one one_assigned (assign ''S1'' 2 ''D'') = Inr False \<and>
   forbidden_after_last quota_one init_schedule (assign ''S1'' 2 ''D'') = Inr False \<and>
   consecutive_count init_schedule (assign ''S1'' 2 ''D'')
     \<le> max_consecutive_shifts (staff_line ''S1'' [''D'' \<mapsto> 1] 14 5) \<and>
   current_count init_schedule (assign ''S1'' 2 ''D'') < 1 \<and>
   is_valid_assignment quota_one init_schedule (assign ''S1'' 2 ''D'') = Inr True \<and>
   find_staff four_days (staff_id (assign ''S1'' 4 ''D'')) = Some (staff_line ''S1'' Map.empty 14 2) \<and>
   shift_limits (staff_line ''S1'' Map.empty 14 2) (shift_id (assign ''S1'' 4 ''D'')) = None \<and>
   \<not> limit_reached (staff_line ''S1'' Map.empty 14 2) two_of_three (assign ''S1'' 4 ''D'') \<and>
   \<not> is_day_off four_days (assign ''S1'' 4 ''D'') \<and>
   forbidden_after_last four_days two_of_three (assign ''S1'' 4 ''D'') = Inr False \<and>
   consecutive_count two_of_three (assign ''S1'' 4 ''D'')
     \<le> max_consecutive_shifts (staff_line ''S1'' Map.empty 14 2) \<and>
   is_valid_assignment four_days two_of_three (assign ''S1'' 4 ''D'') = Inr True \<and>
   reachable quota_one one_assigned \<and>
   greedy_schedule quota_one = Inr (False, one_assigned) \<and>
   current_count one_assigned (assign ''S1'' 2 ''D'') = shift_count one_assigned ''S1'' ''D'' \<and>
   distinct (map st_id (staff quota_one)) \<and>
   staff_line ''S1'' [''D'' \<mapsto> 1] 14 5 \<in> set (staff quota_one) \<and>
   (0::int) \<le> 1 \<and>
   shift_count one_assigned ''S1'' ''D'' \<le> 1 \<and>
   reachable negative_cap init_schedule \<and>
   find_staff negative_cap ''S1'' = Some (staff_line ''S1'' [''D'' \<mapsto> - 1] 14 5) \<and>
   shift_limits (staff_line ''S1'' [''D'' \<mapsto> - 1] 14 5) ''D'' = Some (- 1) \<and>
   (- 1::int) < 0 \<and>
   shift_count init_schedule ''S1'' ''D'' = 0"
proof -
  let ?s = "staff_line ''S1'' [''D'' \<mapsto> 1] 14 5"
  let ?a = "assign ''S1'' 2 ''D''"
  let ?u = "staff_line ''S1'' Map.empty 14 2"
  let ?b = "assign ''S1'' 4 ''D''"
  let ?n = "staff_line ''S1'' [''D'' \<mapsto> - 1] 14 5"
  have run: "greedy_schedule quota_one = Inr (False, one_assigned)"
    by (rule greedy_quota_one)
  have reach: "reachable quota_one one_assigned"
    by (rule greedy_schedule_reachable[OF run])
  have empty: "reachable negative_cap init_schedule"
    by (rule reach_init)
  have given:
    "find_staff quota_one (staff_id ?a) = Some ?s"
    "shift_limits ?s (shift_id ?a) = Some 1"
    "1 \<le> current_count one_assigned ?a"
    "\<not> is_day_off quota_one ?a"
    "forbidden_after_last quota_one one_assigned ?a = Inr False"
    "consecutive_count one_assigned ?a \<le> max_consecutive_shifts ?s"
    "forbidden_after_last quota_one init_schedule ?a = Inr False"
    "consecutive_count init_schedule ?a \<le> max_consecutive_shifts ?s"
    "current_count init_schedule ?a < 1"
    "distinct (map st_id (staff quota_one))"
    "?s \<in> set (staff quota_one)"
    "(0::int) \<le> 1"
    by (simp_all add: quota_one_def one_assigned_def instance_defs schedule_defs)
  have uncapped:
    "find_staff four_days (staff_id ?b) = Some ?u"
    "shift_limits ?u (shift_id ?b) = None"
    "\<not> is_day_off four_days ?b"
    "forbidden_after_last four_days two_of_three ?b = Inr False"
    "consecutive_count two_of_three ?b \<le> max_consecutive_shifts ?u"
    by (simp_all add: four_days_def two_of_three_def instance_defs schedule_defs)
  have below_zero:
    "find_staff negative_cap ''S1'' = Some ?n"
    "shift_limits ?n ''D'' = Some (- 1)"
    "(- 1::int) < 0"
    by (simp_all add: negative_cap_def instance_defs find_staff_def)
  have names: "staff_id ?a = ''S1''" "shift_id ?a = ''D''" "st_id ?s = ''S1''"
    by (simp_all add: instance_defs)
  have at_limit: "limit_reached ?s one_assigned ?a \<and>
      is_valid_assignment quota_one one_assigned ?a = Inr False \<and>
      current_count one_assigned ?a = shift_count one_assigned (staff_id ?a) (shift_id ?a) \<and>
      shift_count one_assigned (st_id ?s) (shift_id ?a) \<le> 1"
    using quota_respected[where inst = quota_one and a = ?a and s = ?s and cap = 1
        and sc = one_assigned and m = ?s and k = "shift_id ?a" and c = 1 and ok = False]
      run reach given
    by blast
  have below: "is_valid_assignment quota_one init_schedule ?a = Inr True"
    using quota_respected[where inst = quota_one and a = ?a and s = ?s and cap = 1
        and sc = init_schedule] given
    by blast
  have free: "\<not> limit_reached ?u two_of_three ?b \<and>
      is_valid_assignment four_days two_of_three ?b = Inr True"
    using quota_respected[where inst = four_days and a = ?b and s = ?u and sc = two_of_three]
      uncapped
    by blast
  have none: "shift_count init_schedule ''S1'' ''D'' = 0"
    using quota_respected[where inst = negative_cap and sc = init_schedule and sid = "''S1''"
        and m = ?n and k = "''D''" and c = "- 1"] empty below_zero
    by blast
  show ?thesis
    using run reach empty given uncapped below_zero at_limit below free none unfolding names
    by simp
qed

section \<open>Fields the scheduler never reads (C10)\<close>

lemma unread_erased_reads:
  assumes "unread_erased s = unread_erased s'"
  shows "st_id s = st_id s'" "shift_limits s = shift_limits s'"
    "max_consecutive_shifts s = max_consecutive_shifts s'"
proof -
  have "st_id (unread_erased s) = st_id (unread_erased s')"
    "shift_limits (unread_erased s) = shift_limits (unread_erased s')"
    "max_consecutive_shifts (unread_erased s) = max_consecutive_shifts (unread_erased s')"
    using assms by simp_all
  then show "st_id s = st_id s'" "shift_limits s = shift_limits s'"
    "max_consecutive_shifts s = max_consecutive_shifts s'"
    by (simp_all add: unread_erased_def)
qed

lemma find_erased:
  "map unread_erased xs = map unread_erased ys \<Longrightarrow>
   rel_option (\<lambda>s s'. unread_erased s = unread_erased s')
     (find (\<lambda>s. st_id s = sid) xs) (find (\<lambda>s. st_id s = sid) ys)"
proof (induction xs arbitrary: ys)
  case Nil
  then show ?case by simp
next
  case (Cons x xs)
  then obtain y ys' where ys: "ys = y # ys'" "unread_erased x = unread_erased y"
    "map unread_erased xs = map unread_erased ys'"
    by (cases ys) auto
  show ?case
    using Cons.IH[OF ys(3)] unread_erased_reads(1)[OF ys(2)] ys by simp
qed

lemma shifts_dict_same: "shifts inst = shifts inst' \<Longrightarrow> shifts_dict inst = shifts_dict inst'"
  by (simp add: shifts_dict_def)

lemma is_valid_assignment_same:
  assumes "same_enforced inst inst'"
  shows "is_valid_assignment inst sc a = is_valid_assignment inst' sc a"
proof -
  have rel: "rel_option (\<lambda>s s'. unread_erased s = unread_erased s')
      (find_staff inst (staff_id a)) (find_staff inst' (staff_id a))"
    unfolding find_staff_def using assms by (intro find_erased) (simp add: same_enforced_def)
  have off: "is_day_off inst a = is_day_off inst' a"
    using assms by (simp add: same_enforced_def is_day_off_def)
  have table: "shifts_dict inst = shifts_dict inst'"
    using assms by (intro shifts_dict_same) (simp add: same_enforced_def)
  have succ: "forbidden_after_last inst sc a = forbidden_after_last inst' sc a"
    unfolding forbidden_after_last_def table by (rule refl)
  show ?thesis
  proof (cases "find_staff inst (staff_id a)")
    case None
    with rel have "find_staff inst' (staff_id a) = None" by (cases "find_staff inst' (staff_id a)") auto
    with None show ?thesis by (simp add: is_valid_assignment_def)
  next
    case (Some s)
    with rel obtain s' where s': "find_staff inst' (staff_id a) = Some s'"
      "unread_erased s = unread_erased s'"
      by (cases "find_staff inst' (staff_id a)") auto
    have "limit_reached s sc a = limit_reached s' sc a"
      using unread_erased_reads(2)[OF s'(2)] by (simp add: limit_reached_def)
    then show ?thesis
      using Some s'(1) off succ unread_erased_reads(3)[OF s'(2)]
      by (simp add: is_valid_assignment_def)
  qed
qed

lemma assign_staff_same:
  assumes "\<And>sc a. is_valid_assignment inst sc a = is_valid_assignment inst' sc a"
  shows "map unread_erased ss = map unread_erased ss' \<Longrightarrow>
    assign_staff inst req ss needed sc = assign_staff inst' req ss' needed sc"
proof (induction ss arbitrary: ss' needed sc)
  case Nil
  then show ?case by simp
next
  case (Cons s ss)
  then obtain t ts where ss': "ss' = t # ts" "unread_erased s = unread_erased t"
    "map unread_erased ss = map unread_erased ts"
    by (cases ss') auto
  have cand: "potential_assignment s req = potential_assignment t req"
    using unread_erased_reads(1)[OF ss'(2)] by (simp add: potential_assignment_def)
  show ?case
    unfolding ss'(1) using Cons.IH[OF ss'(3)] assms cand
    by (simp split: sum.splits bool.splits)
qed

lemma fill_requirements_same:
  assumes "\<And>sc a. is_valid_assignment inst sc a = is_valid_assignment inst' sc a"
    and "map unread_erased (staff inst) = map unread_erased (staff inst')"
  shows "fill_requirements inst reqs sc = fill_requirements inst' reqs sc"
proof (induction reqs arbitrary: sc)
  case Nil
  then show ?case by simp
next
  case (Cons req reqs)
  have "assign_staff inst req (staff inst) n sc = assign_staff inst' req (staff inst') n sc" for n
    using assign_staff_same[OF assms(1) assms(2)] .
  then show ?case
    using Cons.IH by (simp split: sum.splits prod.splits)
qed

lemma greedy_schedule_same:
  assumes "same_enforced inst inst'"
  shows "greedy_schedule inst = greedy_schedule inst'"
proof -
  have "sorted_requirements inst = sorted_requirements inst'"
    using assms by (simp add: same_enforced_def sorted_requirements_def)
  moreover have "map unread_erased (staff inst) = map unread_erased (staff inst')"
    using assms by (simp add: same_enforced_def)
  ultimately show ?thesis
    unfolding greedy_schedule_def
    using fill_requirements_same[of inst inst'] is_valid_assignment_same[OF assms]
    by simp
qed

lemma sorted_one_shift_allowed:
  "sorted_requirements one_shift_allowed = [cover_line 0 ''D'' 1 10, cover_line 1 ''D'' 1 10]"
  by (simp add: sorted_requirements_def one_shift_allowed_def cover_line_def)

lemma greedy_one_shift_allowed: "greedy_schedule one_shift_allowed = Inr (True, two_of_three)"
  unfolding greedy_schedule_def sorted_one_shift_allowed
  by (simp add: one_shift_allowed_def two_of_three_def instance_defs schedule_defs)

text \<open>
  C10. For two instances that differ only in the staff members' \<open>max_shifts\<close>,
  \<open>max_total_minutes\<close>, \<open>min_total_minutes\<close>, \<open>min_consecutive_shifts\<close>,
  \<open>min_consecutive_days_off\<close> and \<open>max_weekends\<close>, the predicate gives the same result on
  every schedule and candidate, and greedy fill gives the same boolean and the same schedule (or
  the same exception). In particular a staff member whose \<open>max_shifts\<close> is 1 is assigned two
  shifts.
\<close>

theorem unread_fields_ignored:
  "(same_enforced inst inst' \<longrightarrow>
      is_valid_assignment inst sc a = is_valid_assignment inst' sc a \<and>
      greedy_schedule inst = greedy_schedule inst') \<and>
   greedy_schedule one_shift_allowed = Inr (True, two_of_three) \<and>
   staff one_shift_allowed = [staff_line ''S1'' Map.empty 1 2] \<and>
   max_shifts (staff_line ''S1'' Map.empty 1 2) = 1 \<and>
   length (filter (\<lambda>b. staff_id b = st_id (staff_line ''S1'' Map.empty 1 2))
     (assignments two_of_three)) = 2"
proof -
  have "is_valid_assignment inst sc a = is_valid_assignment inst' sc a \<and>
      greedy_schedule inst = greedy_schedule inst'" if "same_enforced inst inst'"
    using is_valid_assignment_same[OF that] greedy_schedule_same[OF that] by simp
  moreover have "staff one_shift_allowed = [staff_line ''S1'' Map.empty 1 2] \<and>
      max_shifts (staff_line ''S1'' Map.empty 1 2) = 1 \<and>
      length (filter (\<lambda>b. staff_id b = st_id (staff_line ''S1'' Map.empty 1 2))
        (assignments two_of_three)) = 2"
    by (simp add: one_shift_allowed_def two_of_three_def instance_defs)
  ultimately show ?thesis
    using greedy_one_shift_allowed by blast
qed

theorem unread_fields_ignored_witness:
  "same_enforced one_shift_allowed many_shifts_allowed \<and>
   is_valid_assignment one_shift_allowed one_assigned (assign ''S1'' 1 ''D'') =
     is_valid_assignment many_shifts_allowed one_assigned (assign ''S1'' 1 ''D'') \<and>
   is_valid_assignment one_shift_allowed one_assigned (assign ''S1'' 1 ''D'') = Inr True \<and>
   greedy_schedule one_shift_allowed = greedy_schedule many_shifts_allowed \<and>
   greedy_schedule many_shifts_allowed = Inr (True, two_of_three)"
proof -
  have same: "same_enforced one_shift_allowed many_shifts_allowed"
    by (simp add: same_enforced_def unread_erased_def one_shift_allowed_def
        many_shifts_allowed_def instance_defs)
  have accepted: "is_valid_assignment one_shift_allowed one_assigned (assign ''S1'' 1 ''D'') = Inr True"
    by (simp add: one_shift_allowed_def one_assigned_def instance_defs schedule_defs)
  have "is_valid_assignment one_shift_allowed one_assigned (assign ''S1'' 1 ''D'') =
      is_valid_assignment many_shifts_allowed one_assigned (assign ''S1'' 1 ''D'') \<and>
      greedy_schedule one_shift_allowed = greedy_schedule many_shifts_allowed \<and>
      greedy_schedule one_shift_allowed = Inr (True, two_of_three)"
    using unread_fields_ignored[where inst = one_shift_allowed and inst' = many_shifts_allowed
        and sc = one_assigned and a = "assign ''S1'' 1 ''D''"] same
    by blast
  then show ?thesis
    using same accepted by metis
qed

section \<open>The succession check (C4)\<close>

text \<open>
  C4. The succession check makes the predicate return False exactly when the staff member's list
  is not empty, the day of its last element is the candidate's day minus 1, and the shift of that
  last element is in the shift table with the candidate's shift id among its
  \<open>forbidden_following\<close>. Two schedules whose lists for the staff member end with the same
  element give the same outcome of the check, whatever stands before that element: an assignment
  on the day before that is not the last element is not consulted. For a listed staff member the
  predicate returns False when the check fails, and when the three other checks pass it returns
  False exactly when this check fails.
\<close>

theorem succession_reads_last_only:
  "(forbidden_after_last inst sc a = Inr True \<longleftrightarrow>
      get_list (staff_assignments sc) (staff_id a) \<noteq> [] \<and>
      day (last (get_list (staff_assignments sc) (staff_id a))) = day a - 1 \<and>
      (\<exists>sh. shifts_dict inst (shift_id (last (get_list (staff_assignments sc) (staff_id a)))) = Some sh \<and>
            shift_id a \<in> set (forbidden_following sh))) \<and>
   (get_list (staff_assignments sc) (staff_id a) = xs @ [l] \<longrightarrow>
    get_list (staff_assignments sc') (staff_id a) = ys @ [l] \<longrightarrow>
      forbidden_after_last inst sc a = forbidden_after_last inst sc' a) \<and>
   (find_staff inst (staff_id a) = Some s \<longrightarrow> forbidden_after_last inst sc a = Inr True \<longrightarrow>
      is_valid_assignment inst sc a = Inr False) \<and>
   (find_staff inst (staff_id a) = Some s \<longrightarrow> \<not> is_day_off inst a \<longrightarrow> \<not> limit_reached s sc a \<longrightarrow>
    consecutive_count sc a \<le> max_consecutive_shifts s \<longrightarrow>
      (is_valid_assignment inst sc a = Inr False \<longleftrightarrow> forbidden_after_last inst sc a = Inr True))"
proof -
  have exact: "forbidden_after_last inst sc a = Inr True \<longleftrightarrow>
      get_list (staff_assignments sc) (staff_id a) \<noteq> [] \<and>
      day (last (get_list (staff_assignments sc) (staff_id a))) = day a - 1 \<and>
      (\<exists>sh. shifts_dict inst (shift_id (last (get_list (staff_assignments sc) (staff_id a)))) = Some sh \<and>
            shift_id a \<in> set (forbidden_following sh))"
    by (auto simp: forbidden_after_last_def Let_def split: option.splits)
  have trailing: "forbidden_after_last inst sc a = forbidden_after_last inst sc' a"
    if "get_list (staff_assignments sc) (staff_id a) = xs @ [l]"
      "get_list (staff_assignments sc') (staff_id a) = ys @ [l]"
    using that by (simp add: forbidden_after_last_def)
  have fails: "is_valid_assignment inst sc a = Inr False"
    if "find_staff inst (staff_id a) = Some s" "forbidden_after_last inst sc a = Inr True"
    using that by (simp add: is_valid_assignment_def)
  have alone: "is_valid_assignment inst sc a = Inr False \<longleftrightarrow> forbidden_after_last inst sc a = Inr True"
    if "find_staff inst (staff_id a) = Some s" "\<not> is_day_off inst a" "\<not> limit_reached s sc a"
      "consecutive_count sc a \<le> max_consecutive_shifts s"
    using that by (auto simp: is_valid_assignment_def split: sum.splits bool.splits)
  show ?thesis
    using exact trailing fails alone by blast
qed

theorem succession_reads_last_only_witness:
  "forbidden_after_last night_before (commit init_schedule (assign ''S1'' 0 ''A''))
     (assign ''S1'' 1 ''B'') = Inr True \<and>
   get_list (staff_assignments (commit init_schedule (assign ''S1'' 0 ''A'')))
     (staff_id (assign ''S1'' 1 ''B'')) \<noteq> [] \<and>
   find_staff night_before (staff_id (assign ''S1'' 1 ''B'')) = Some (staff_line ''S1'' Map.empty 14 5) \<and>
   is_valid_assignment night_before (commit init_schedule (assign ''S1'' 0 ''A''))
     (assign ''S1'' 1 ''B'') = Inr False \<and>
   get_list (staff_assignments
       (commit (commit init_schedule (assign ''S1'' 0 ''A'')) (assign ''S1'' 5 ''B'')))
     (staff_id (assign ''S1'' 1 ''B'')) = [assign ''S1'' 0 ''A''] @ [assign ''S1'' 5 ''B''] \<and>
   get_list (staff_assignments (commit init_schedule (assign ''S1'' 5 ''B'')))
     (staff_id (assign ''S1'' 1 ''B'')) = [] @ [assign ''S1'' 5 ''B''] \<and>
   forbidden_after_last night_before
       (commit (commit init_schedule (assign ''S1'' 0 ''A'')) (assign ''S1'' 5 ''B''))
       (assign ''S1'' 1 ''B'') =
     forbidden_after_last night_before (commit init_schedule (assign ''S1'' 5 ''B''))
       (assign ''S1'' 1 ''B'') \<and>
   forbidden_after_last night_before (commit init_schedule (assign ''S1'' 5 ''B''))
     (assign ''S1'' 1 ''B'') = Inr False \<and>
   \<not> is_day_off night_before (assign ''S1'' 1 ''B'') \<and>
   \<not> limit_reached (staff_line ''S1'' Map.empty 14 5) (commit init_schedule (assign ''S1'' 0 ''A''))
       (assign ''S1'' 1 ''B'') \<and>
   consecutive_count (commit init_schedule (assign ''S1'' 0 ''A'')) (assign ''S1'' 1 ''B'')
     \<le> max_consecutive_shifts (staff_line ''S1'' Map.empty 14 5)"
proof -
  let ?a = "assign ''S1'' 1 ''B''"
  let ?s = "staff_line ''S1'' Map.empty 14 5"
  let ?after_a = "commit init_schedule (assign ''S1'' 0 ''A'')"
  let ?after_a_b = "commit (commit init_schedule (assign ''S1'' 0 ''A'')) (assign ''S1'' 5 ''B'')"
  let ?after_b = "commit init_schedule (assign ''S1'' 5 ''B'')"
  have given:
    "get_list (staff_assignments ?after_a) (staff_id ?a) \<noteq> []"
    "day (last (get_list (staff_assignments ?after_a) (staff_id ?a))) = day ?a - 1"
    "shifts_dict night_before (shift_id (last (get_list (staff_assignments ?after_a) (staff_id ?a))))
       = Some (shift_line ''A'' [''B''])"
    "shift_id ?a \<in> set (forbidden_following (shift_line ''A'' [''B'']))"
    "find_staff night_before (staff_id ?a) = Some ?s"
    "get_list (staff_assignments ?after_a_b) (staff_id ?a) = [assign ''S1'' 0 ''A''] @ [assign ''S1'' 5 ''B'']"
    "get_list (staff_assignments ?after_b) (staff_id ?a) = [] @ [assign ''S1'' 5 ''B'']"
    "forbidden_after_last night_before ?after_b ?a = Inr False"
    "\<not> is_day_off night_before ?a"
    "\<not> limit_reached ?s ?after_a ?a"
    "consecutive_count ?after_a ?a \<le> max_consecutive_shifts ?s"
    by (simp_all add: night_before_def instance_defs schedule_defs)
  have hit: "forbidden_after_last night_before ?after_a ?a = Inr True"
    using succession_reads_last_only[where inst = night_before and sc = ?after_a and a = ?a]
      given(1-4)
    by blast
  have rejected: "is_valid_assignment night_before ?after_a ?a = Inr False"
    using succession_reads_last_only[where inst = night_before and sc = ?after_a and a = ?a
        and s = ?s] given hit
    by blast
  have unread: "forbidden_after_last night_before ?after_a_b ?a =
      forbidden_after_last night_before ?after_b ?a"
    using succession_reads_last_only[where inst = night_before and sc = ?after_a_b
        and sc' = ?after_b and a = ?a and xs = "[assign ''S1'' 0 ''A'']" and ys = "[]"
        and l = "assign ''S1'' 5 ''B''"] given(6,7)
    by blast
  show ?thesis
    using given hit rejected unread by blast
qed

section \<open>An unmet requirement ends the run (C1)\<close>

lemma fill_requirements_append:
  "fill_requirements inst pre sc = Inr (True, sc1) \<Longrightarrow>
   fill_requirements inst (pre @ rest) sc = fill_requirements inst rest sc1"
proof (induction pre arbitrary: sc)
  case Nil
  then show ?case by simp
next
  case (Cons req pre)
  then show ?case
    by (auto split: if_splits sum.splits prod.splits)
qed

lemma assign_staff_prefix:
  "assign_staff inst req ss needed sc = Inr (needed', sc') \<Longrightarrow>
   prefix (assignments sc) (assignments sc')"
proof (induction ss arbitrary: needed sc)
  case Nil
  then show ?case by simp
next
  case (Cons s ss)
  have step: "prefix (assignments sc) (assignments (commit sc (potential_assignment s req)))"
    by (simp add: commit_def)
  show ?case
    using Cons.prems Cons.IH[of "needed - 1" "commit sc (potential_assignment s req)"]
      Cons.IH[of needed sc] step
    by (auto split: if_splits sum.splits bool.splits intro: prefix_order.trans)
qed

lemma fill_requirements_prefix:
  "fill_requirements inst reqs sc = Inr (ok, sc') \<Longrightarrow> prefix (assignments sc) (assignments sc')"
proof (induction reqs arbitrary: sc)
  case Nil
  then show ?case by simp
next
  case (Cons req reqs)
  show ?case
  proof (cases "needed_for sc req \<le> 0")
    case True
    then show ?thesis using Cons by simp
  next
    case False
    then obtain n sc1 where
      run: "assign_staff inst req (staff inst) (needed_for sc req) sc = Inr (n, sc1)"
      using Cons.prems by (auto split: sum.splits)
    have p1: "prefix (assignments sc) (assignments sc1)"
      using assign_staff_prefix[OF run] .
    show ?thesis
    proof (cases "n > 0")
      case True
      with False run Cons.prems have "sc' = sc1" by simp
      with p1 show ?thesis by simp
    next
      case filled: False
      with False run Cons.prems have "fill_requirements inst reqs sc1 = Inr (ok, sc')" by simp
      from Cons.IH[OF this] p1 show ?thesis by (rule prefix_order.trans[rotated])
    qed
  qed
qed

lemma sorted_four_days:
  "sorted_requirements four_days =
     [cover_line 0 ''D'' 1 10, cover_line 1 ''D'' 1 10, cover_line 2 ''D'' 1 10,
      cover_line 4 ''D'' 1 5]"
  by (simp add: sorted_requirements_def four_days_def cover_line_def)

lemma greedy_four_days: "greedy_schedule four_days = Inr (False, two_of_three)"
  unfolding greedy_schedule_def sorted_four_days
  by (simp add: four_days_def two_of_three_def instance_defs schedule_defs)

lemma spec_every_requirement_four_days:
  "spec_fill_every_requirement four_days (sorted_requirements four_days) init_schedule =
     Inr (False, three_of_four)"
  unfolding sorted_four_days
  by (simp add: four_days_def three_of_four_def instance_defs schedule_defs)

text \<open>
  C1, as stated, fails in "every later coverage requirement is still processed". With the
  requirements of days 0, 1, 2 (weight 10) and day 4 (weight 5) and a staff member limited to two
  consecutive shifts, the requirement of day 2 is left unmet and \<open>greedy_schedule\<close> returns
  False there, at line 106, inside the loop. The requirement of day 4 is never looked at: the
  schedule returned has nothing on day 4, the requirement still needs 1, and the predicate would
  accept the staff member on day 4 in that schedule. The policy of the claim, processing every
  requirement, ends with three assignments.
\<close>

theorem later_requirement_not_processed:
  "greedy_schedule four_days = Inr (False, two_of_three) \<and>
   spec_fill_every_requirement four_days (sorted_requirements four_days) init_schedule =
     Inr (False, three_of_four) \<and>
   assign ''S1'' 4 ''D'' \<in> set (assignments three_of_four) \<and>
   assign ''S1'' 4 ''D'' \<notin> set (assignments two_of_three) \<and>
   get_list (day_shift_assignments two_of_three) (4, ''D'') = [] \<and>
   needed_for two_of_three (cover_line 4 ''D'' 1 5) = 1 \<and>
   is_valid_assignment four_days two_of_three (assign ''S1'' 4 ''D'') = Inr True"
  using greedy_four_days spec_every_requirement_four_days
  by (simp add: four_days_def two_of_three_def three_of_four_def instance_defs schedule_defs)

text \<open>
  C1, amended. Greedy fill stops at the first unmet requirement. When the requirements before
  \<open>req\<close> in the sorted order were all met, leaving schedule \<open>sc1\<close>, and the staff loop for
  \<open>req\<close> ends in schedule \<open>sc2\<close> with a positive count still needed, then the result is False
  with the schedule \<open>sc2\<close>; the assignments of \<open>sc1\<close> are all in \<open>sc2\<close>, in the same order
  and followed by those committed for \<open>req\<close> (nothing is rolled back); and the requirements
  after \<open>req\<close> are not processed: the result is the one of the run without them.
\<close>

theorem stops_at_first_unmet:
  "sorted_requirements inst = pre @ req # post \<longrightarrow>
   fill_requirements inst pre init_schedule = Inr (True, sc1) \<longrightarrow>
   0 < needed_for sc1 req \<longrightarrow>
   assign_staff inst req (staff inst) (needed_for sc1 req) sc1 = Inr (n, sc2) \<longrightarrow>
   0 < n \<longrightarrow>
     greedy_schedule inst = Inr (False, sc2) \<and>
     prefix (assignments sc1) (assignments sc2) \<and>
     fill_requirements inst (pre @ [req]) init_schedule = Inr (False, sc2)"
proof -
  have "greedy_schedule inst = Inr (False, sc2) \<and>
     prefix (assignments sc1) (assignments sc2) \<and>
     fill_requirements inst (pre @ [req]) init_schedule = Inr (False, sc2)"
    if order: "sorted_requirements inst = pre @ req # post"
      and before: "fill_requirements inst pre init_schedule = Inr (True, sc1)"
      and open_req: "0 < needed_for sc1 req"
      and tried: "assign_staff inst req (staff inst) (needed_for sc1 req) sc1 = Inr (n, sc2)"
      and unmet: "0 < n"
  proof -
    have here: "fill_requirements inst (req # rest) sc1 = Inr (False, sc2)" for rest
      using open_req tried unmet by simp
    have "greedy_schedule inst = fill_requirements inst (req # post) sc1"
      unfolding greedy_schedule_def order by (rule fill_requirements_append[OF before])
    moreover have "fill_requirements inst (pre @ [req]) init_schedule =
        fill_requirements inst [req] sc1"
      by (rule fill_requirements_append[OF before])
    ultimately show ?thesis
      using here assign_staff_prefix[OF tried] by simp
  qed
  then show ?thesis by blast
qed

theorem stops_at_first_unmet_witness:
  "sorted_requirements four_days =
     [cover_line 0 ''D'' 1 10, cover_line 1 ''D'' 1 10] @ cover_line 2 ''D'' 1 10
       # [cover_line 4 ''D'' 1 5] \<and>
   fill_requirements four_days [cover_line 0 ''D'' 1 10, cover_line 1 ''D'' 1 10] init_schedule =
     Inr (True, two_of_three) \<and>
   0 < needed_for two_of_three (cover_line 2 ''D'' 1 10) \<and>
   assign_staff four_days (cover_line 2 ''D'' 1 10) (staff four_days)
     (needed_for two_of_three (cover_line 2 ''D'' 1 10)) two_of_three = Inr (1, two_of_three) \<and>
   (0::int) < 1 \<and>
   greedy_schedule four_days = Inr (False, two_of_three) \<and>
   prefix (assignments two_of_three) (assignments two_of_three) \<and>
   fill_requirements four_days
     ([cover_line 0 ''D'' 1 10, cover_line 1 ''D'' 1 10] @ [cover_line 2 ''D'' 1 10]) init_schedule =
     Inr (False, two_of_three)"
proof -
  let ?pre = "[cover_line 0 ''D'' 1 10, cover_line 1 ''D'' 1 10]"
  let ?req = "cover_line 2 ''D'' 1 10"
  have given:
    "sorted_requirements four_days = ?pre @ ?req # [cover_line 4 ''D'' 1 5]"
    "fill_requirements four_days ?pre init_schedule = Inr (True, two_of_three)"
    "0 < needed_for two_of_three ?req"
    "assign_staff four_days ?req (staff four_days) (needed_for two_of_three ?req) two_of_three =
       Inr (1, two_of_three)"
    "(0::int) < 1"
    unfolding sorted_four_days
    by (simp_all add: four_days_def two_of_three_def instance_defs schedule_defs)
  show ?thesis
    using stops_at_first_unmet[where inst = four_days and pre = ?pre and req = ?req
        and post = "[cover_line 4 ''D'' 1 5]" and ?sc1.0 = two_of_three and n = 1
        and ?sc2.0 = two_of_three] given
    by blast
qed

section \<open>A forbidden succession in a finished schedule (C2)\<close>

lemma sorted_night_before:
  "sorted_requirements night_before = [cover_line 1 ''B'' 1 10, cover_line 0 ''A'' 1 5]"
  by (simp add: sorted_requirements_def night_before_def cover_line_def)

lemma greedy_night_before: "greedy_schedule night_before = Inr (True, b_then_a)"
  unfolding greedy_schedule_def sorted_night_before
  by (simp add: night_before_def b_then_a_def instance_defs schedule_defs)

lemma sorted_day_five_between:
  "sorted_requirements day_five_between =
     [cover_line 0 ''A'' 1 10, cover_line 5 ''B'' 1 9, cover_line 1 ''B'' 1 8]"
  by (simp add: sorted_requirements_def day_five_between_def cover_line_def)

lemma greedy_day_five_between: "greedy_schedule day_five_between = Inr (True, a_five_b)"
  unfolding greedy_schedule_def sorted_day_five_between
  by (simp add: day_five_between_def a_five_b_def instance_defs schedule_defs)

text \<open>
  C2 does not hold of the program. Shift B is forbidden after shift A. With the requirement
  (day 1, B) of weight 10 and (day 0, A) of weight 5, S1 is given B on day 1 first and then A on
  day 0: the check compares the candidate with the last inserted assignment only when that one is
  on the day before the candidate, and never with an assignment on the day after. With the
  requirements (day 0, A), (day 5, B), (day 1, B) in this order of weight, the candidate B on day 1
  is compared with the assignment of day 5, the last one inserted, and A on day 0 is not looked
  at. Both runs return True with S1 on A on day 0 and on B on day 1.
\<close>

theorem forbidden_succession_committed:
  "greedy_schedule night_before = Inr (True, b_then_a) \<and>
   assignments b_then_a = [assign ''S1'' 1 ''B'', assign ''S1'' 0 ''A''] \<and>
   shifts_dict night_before ''A'' = Some (shift_line ''A'' [''B'']) \<and>
   ''B'' \<in> set (forbidden_following (shift_line ''A'' [''B''])) \<and>
   greedy_schedule day_five_between = Inr (True, a_five_b) \<and>
   assignments a_five_b = [assign ''S1'' 0 ''A'', assign ''S1'' 5 ''B'', assign ''S1'' 1 ''B''] \<and>
   shifts_dict day_five_between ''A'' = Some (shift_line ''A'' [''B''])"
  using greedy_night_before greedy_day_five_between
  by (simp add: night_before_def day_five_between_def b_then_a_def a_five_b_def instance_defs
      shifts_dict_def)

section \<open>A run longer than the limit in a finished schedule (C3)\<close>

lemma sorted_later_day_first:
  "sorted_requirements later_day_first = [cover_line 1 ''D'' 1 10, cover_line 0 ''D'' 1 5]"
  by (simp add: sorted_requirements_def later_day_first_def cover_line_def)

lemma greedy_later_day_first: "greedy_schedule later_day_first = Inr (True, one_then_zero)"
  unfolding greedy_schedule_def sorted_later_day_first
  by (simp add: later_day_first_def one_then_zero_def instance_defs schedule_defs)

text \<open>
  C3 does not hold of the program. S1 may work at most 1 consecutive shift. With the requirement
  of day 1 weighing more than that of day 0, S1 is assigned day 1 first; the candidate of day 0
  then has no earlier day to count, so its run is 1 and it is accepted: the loop walks back from
  the candidate only, never forward. The run returns True with S1 on day 0 and on day 1, and the
  program's own count for day 1 in that schedule is 2.
\<close>

theorem run_longer_than_limit:
  "greedy_schedule later_day_first = Inr (True, one_then_zero) \<and>
   assignments one_then_zero = [assign ''S1'' 1 ''D'', assign ''S1'' 0 ''D''] \<and>
   find_staff later_day_first ''S1'' = Some (staff_line ''S1'' Map.empty 14 1) \<and>
   max_consecutive_shifts (staff_line ''S1'' Map.empty 14 1) = 1 \<and>
   consecutive_count one_then_zero (assign ''S1'' 1 ''D'') = 2"
  using greedy_later_day_first
  by (simp add: later_day_first_def one_then_zero_def instance_defs schedule_defs)

section \<open>No exception for a rejected candidate (C9)\<close>

lemma dom_foldl_upd:
  "dom (foldl (\<lambda>m x. m(f x \<mapsto> x)) m0 xs) = dom m0 \<union> f ` set xs"
  by (induction xs arbitrary: m0) auto

lemma dom_shifts_dict: "dom (shifts_dict inst) = sh_id ` set (shifts inst)"
  by (simp add: shifts_dict_def dom_foldl_upd)

lemma find_staff_listed:
  "sid \<in> st_id ` set (staff inst) \<Longrightarrow> \<exists>s. find_staff inst sid = Some s"
  by (cases "find_staff inst sid") (auto simp: find_staff_def find_None_iff)

lemma forbidden_after_last_returns:
  assumes "\<forall>b \<in> set (get_list (staff_assignments sc) (staff_id a)).
             shift_id b \<in> sh_id ` set (shifts inst)"
  shows "\<exists>r. forbidden_after_last inst sc a = Inr r"
proof (cases "get_list (staff_assignments sc) (staff_id a) = []")
  case True
  then show ?thesis by (auto simp: forbidden_after_last_def)
next
  case False
  then have "last (get_list (staff_assignments sc) (staff_id a))
      \<in> set (get_list (staff_assignments sc) (staff_id a))"
    by simp
  with assms have "shift_id (last (get_list (staff_assignments sc) (staff_id a)))
      \<in> dom (shifts_dict inst)"
    by (simp add: dom_shifts_dict)
  then show ?thesis
    by (auto simp: forbidden_after_last_def Let_def)
qed

lemma is_valid_assignment_returns:
  assumes "staff_id a \<in> st_id ` set (staff inst)"
    and "\<forall>b \<in> set (get_list (staff_assignments sc) (staff_id a)).
           shift_id b \<in> sh_id ` set (shifts inst)"
  shows "\<exists>r. is_valid_assignment inst sc a = Inr r"
proof -
  obtain s where "find_staff inst (staff_id a) = Some s"
    using find_staff_listed[OF assms(1)] by blast
  moreover obtain r where "forbidden_after_last inst sc a = Inr r"
    using forbidden_after_last_returns[OF assms(2)] by blast
  ultimately show ?thesis
    by (cases r) (auto simp: is_valid_assignment_def)
qed

lemma candidate_returns:
  assumes "reachable inst sc" "shifts_known inst sc" "s \<in> set (staff inst)"
  shows "\<exists>r. is_valid_assignment inst sc (potential_assignment s req) = Inr r"
proof (rule is_valid_assignment_returns)
  show "staff_id (potential_assignment s req) \<in> st_id ` set (staff inst)"
    using assms(3) by (simp add: potential_assignment_def)
  have "indexes_agree sc" using assms(1) by (rule reachable_indexes_agree)
  then have "set (get_list (staff_assignments sc) k) \<subseteq> set (assignments sc)" for k
    by (simp add: indexes_agree_def)
  then show "\<forall>b \<in> set (get_list (staff_assignments sc) (staff_id (potential_assignment s req))).
      shift_id b \<in> sh_id ` set (shifts inst)"
    using assms(2) unfolding shifts_known_def by blast
qed

lemma shifts_known_prefix:
  "prefix (assignments sc) (assignments sc') \<Longrightarrow> shifts_known inst sc' \<Longrightarrow> shifts_known inst sc"
  unfolding shifts_known_def using set_mono_prefix by blast

lemma assign_staff_held_eq:
  "assign_staff inst req ss needed sc = Inr (n, sc') \<Longrightarrow>
   assign_staff_held inst req ss needed sc = sc'"
  by (induction ss arbitrary: needed sc) (auto split: if_splits sum.splits bool.splits)

lemma fill_requirements_held_eq:
  "fill_requirements inst reqs sc = Inr (ok, sc') \<Longrightarrow> fill_requirements_held inst reqs sc = sc'"
  by (induction reqs arbitrary: sc) (auto split: if_splits sum.splits prod.splits)

lemma assign_staff_held_prefix:
  "prefix (assignments sc) (assignments (assign_staff_held inst req ss needed sc))"
proof (induction ss arbitrary: needed sc)
  case Nil
  then show ?case by simp
next
  case (Cons s ss)
  have step: "prefix (assignments sc) (assignments (commit sc (potential_assignment s req)))"
    by (simp add: commit_def)
  show ?case
    using Cons.IH[of "commit sc (potential_assignment s req)" "needed - 1"] Cons.IH[of sc needed]
      step
    by (auto split: sum.splits bool.splits intro: prefix_order.trans)
qed

lemma assign_staff_returns_held:
  "reachable inst sc \<Longrightarrow> set ss \<subseteq> set (staff inst) \<Longrightarrow> req \<in> set (cover_requirements inst) \<Longrightarrow>
   shifts_known inst (assign_staff_held inst req ss needed sc) \<Longrightarrow>
   \<exists>n sc'. assign_staff inst req ss needed sc = Inr (n, sc')"
proof (induction ss arbitrary: needed sc)
  case Nil
  then show ?case by simp
next
  case (Cons s ss)
  show ?case
  proof (cases "needed \<le> 0")
    case True
    then show ?thesis by simp
  next
    case False
    have "shifts_known inst sc"
      using shifts_known_prefix[OF assign_staff_held_prefix Cons.prems(4)] .
    moreover have "s \<in> set (staff inst)" using Cons.prems(2) by simp
    ultimately obtain r where r: "is_valid_assignment inst sc (potential_assignment s req) = Inr r"
      using candidate_returns[OF Cons.prems(1), of s req] by blast
    show ?thesis
    proof (cases r)
      case True
      have "reachable inst (commit sc (potential_assignment s req))"
        using Cons.prems r True by (auto intro: reach_commit)
      moreover have "shifts_known inst
          (assign_staff_held inst req ss (needed - 1) (commit sc (potential_assignment s req)))"
        using Cons.prems(4) False r True by simp
      ultimately show ?thesis
        using Cons.IH[of "commit sc (potential_assignment s req)" "needed - 1"] Cons.prems(2,3)
          False r True
        by auto
    next
      case rejected: False
      have "shifts_known inst (assign_staff_held inst req ss needed sc)"
        using Cons.prems(4) False r rejected by simp
      then show ?thesis
        using Cons.IH[of sc needed] Cons.prems(1,2,3) False r rejected by auto
    qed
  qed
qed

lemma fill_requirements_returns_held:
  "reachable inst sc \<Longrightarrow> set reqs \<subseteq> set (cover_requirements inst) \<Longrightarrow>
   shifts_known inst (fill_requirements_held inst reqs sc) \<Longrightarrow>
   \<exists>ok sc'. fill_requirements inst reqs sc = Inr (ok, sc')"
proof (induction reqs arbitrary: sc)
  case Nil
  then show ?case by auto
next
  case (Cons req reqs)
  show ?case
  proof (cases "needed_for sc req \<le> 0")
    case True
    then show ?thesis using Cons by simp
  next
    case False
    have member: "req \<in> set (cover_requirements inst)" using Cons.prems(2) by simp
    have "\<exists>n sc1. assign_staff inst req (staff inst) (needed_for sc req) sc = Inr (n, sc1)"
    proof (cases "assign_staff inst req (staff inst) (needed_for sc req) sc")
      case (Inl e)
      then have "shifts_known inst (assign_staff_held inst req (staff inst) (needed_for sc req) sc)"
        using Cons.prems(3) False by simp
      then show ?thesis
        using assign_staff_returns_held[OF Cons.prems(1) _ member] by blast
    next
      case (Inr p)
      then show ?thesis by (cases p) simp
    qed
    then obtain n sc1 where
      run: "assign_staff inst req (staff inst) (needed_for sc req) sc = Inr (n, sc1)"
      by blast
    have r1: "reachable inst sc1"
      using assign_staff_reachable[OF Cons.prems(1) _ member run] by simp
    show ?thesis
    proof (cases "n > 0")
      case True
      then show ?thesis using False run by auto
    next
      case filled: False
      then have "shifts_known inst (fill_requirements_held inst reqs sc1)"
        using Cons.prems(3) False run by simp
      then show ?thesis
        using Cons.IH[OF r1] Cons.prems(2) False run filled by simp
    qed
  qed
qed

lemma greedy_schedule_returns:
  assumes "shifts_known inst (schedule_after inst)"
  shows "\<exists>ok. greedy_schedule inst = Inr (ok, schedule_after inst)"
proof -
  obtain ok sc where run: "greedy_schedule inst = Inr (ok, sc)"
    using fill_requirements_returns_held[OF reach_init, of "sorted_requirements inst" inst] assms
    unfolding greedy_schedule_def schedule_after_def
    by (auto simp: set_sorted_requirements)
  then have "schedule_after inst = sc"
    unfolding greedy_schedule_def schedule_after_def by (rule fill_requirements_held_eq)
  with run show ?thesis by blast
qed

lemma is_valid_assignment_own_list:
  "get_list (staff_assignments sc) (staff_id a) = get_list (staff_assignments sc') (staff_id a) \<Longrightarrow>
   is_valid_assignment inst sc a = is_valid_assignment inst sc' a"
proof -
  assume own: "get_list (staff_assignments sc) (staff_id a) =
    get_list (staff_assignments sc') (staff_id a)"
  have quota: "limit_reached s sc a = limit_reached s sc' a" for s
    unfolding limit_reached_def current_count_def own by (rule refl)
  have succession: "forbidden_after_last inst sc a = forbidden_after_last inst sc' a"
    unfolding forbidden_after_last_def own by (rule refl)
  have run: "consecutive_count sc a = consecutive_count sc' a"
    unfolding consecutive_count_def own by (rule refl)
  show ?thesis
    unfolding is_valid_assignment_def quota succession run by (rule refl)
qed

lemma assign_staff_own_list:
  "assign_staff inst req ss needed sc = Inr (n, sc') \<Longrightarrow>
   get_list (staff_assignments sc') k = get_list (staff_assignments sc) k \<or>
   \<lparr>staff_id = k, day = cv_day req, shift_id = cv_shift_id req\<rparr> \<in> set (assignments sc')"
proof (induction ss arbitrary: needed sc)
  case Nil
  then show ?case by simp
next
  case (Cons s ss)
  show ?case
  proof (cases "needed \<le> 0")
    case True
    then show ?thesis using Cons.prems by simp
  next
    case False
    show ?thesis
    proof (cases "is_valid_assignment inst sc (potential_assignment s req)")
      case (Inl e)
      then show ?thesis using Cons.prems False by simp
    next
      case (Inr r)
      show ?thesis
      proof (cases r)
        case True
        let ?sc = "commit sc (potential_assignment s req)"
        have rest: "assign_staff inst req ss (needed - 1) ?sc = Inr (n, sc')"
          using Cons.prems False Inr True by simp
        show ?thesis
        proof (cases "st_id s = k")
          case same: True
          have "potential_assignment s req \<in> set (assignments ?sc)"
            by (simp add: commit_def)
          then have "potential_assignment s req \<in> set (assignments sc')"
            using set_mono_prefix[OF assign_staff_prefix[OF rest]] by blast
          then show ?thesis using same by (simp add: potential_assignment_def)
        next
          case other: False
          have "get_list (staff_assignments ?sc) k = get_list (staff_assignments sc) k"
            using other by (simp add: commit_def get_list_append_at potential_assignment_def)
          then show ?thesis using Cons.IH[OF rest] by auto
        qed
      next
        case rejected: False
        then show ?thesis using Cons.IH[of needed sc] Cons.prems False Inr by simp
      qed
    qed
  qed
qed

lemma assign_staff_all_tried:
  "assign_staff inst req ss needed sc = Inr (n, sc') \<Longrightarrow> 0 < n \<Longrightarrow> t \<in> set ss \<Longrightarrow>
   is_valid_assignment inst sc' (potential_assignment t req) = Inr False \<or>
   potential_assignment t req \<in> set (assignments sc')"
proof (induction ss arbitrary: needed sc)
  case Nil
  then show ?case by simp
next
  case (Cons s ss)
  have pos: "\<not> needed \<le> 0" using Cons.prems(1,2) by (auto split: if_splits)
  show ?case
  proof (cases "is_valid_assignment inst sc (potential_assignment s req)")
    case (Inl e)
    then show ?thesis using Cons.prems pos by simp
  next
    case (Inr r)
    show ?thesis
    proof (cases r)
      case True
      let ?sc = "commit sc (potential_assignment s req)"
      have rest: "assign_staff inst req ss (needed - 1) ?sc = Inr (n, sc')"
        using Cons.prems pos Inr True by simp
      show ?thesis
      proof (cases "t = s")
        case same: True
        have "potential_assignment s req \<in> set (assignments ?sc)"
          by (simp add: commit_def)
        then have "potential_assignment s req \<in> set (assignments sc')"
          using set_mono_prefix[OF assign_staff_prefix[OF rest]] by blast
        then show ?thesis using same by simp
      next
        case other: False
        then show ?thesis using Cons.IH[OF rest Cons.prems(2)] Cons.prems(3) by simp
      qed
    next
      case rejected: False
      have rest: "assign_staff inst req ss needed sc = Inr (n, sc')"
        using Cons.prems pos Inr rejected by simp
      show ?thesis
      proof (cases "t = s")
        case same: True
        have "get_list (staff_assignments sc') (staff_id (potential_assignment s req)) =
            get_list (staff_assignments sc) (staff_id (potential_assignment s req)) \<or>
            potential_assignment s req \<in> set (assignments sc')"
          using assign_staff_own_list[OF rest, of "st_id s"]
          by (simp add: potential_assignment_def)
        then show ?thesis
        proof
          assume "get_list (staff_assignments sc') (staff_id (potential_assignment s req)) =
            get_list (staff_assignments sc) (staff_id (potential_assignment s req))"
          then have "is_valid_assignment inst sc' (potential_assignment s req) =
              is_valid_assignment inst sc (potential_assignment s req)"
            by (rule is_valid_assignment_own_list)
          then show ?thesis using Inr rejected same by simp
        next
          assume "potential_assignment s req \<in> set (assignments sc')"
          then show ?thesis using same by simp
        qed
      next
        case other: False
        then show ?thesis using Cons.IH[OF rest Cons.prems(2)] Cons.prems(3) by simp
      qed
    qed
  qed
qed


lemma needed_for_commit:
  "needed_for (commit sc a) req =
     (if (day a, shift_id a) = (cv_day req, cv_shift_id req) then needed_for sc req - 1
      else needed_for sc req)"
  by (simp add: needed_for_def commit_def get_list_append_at)

lemma assign_staff_needed:
  "assign_staff inst req ss needed sc = Inr (n, sc') \<Longrightarrow>
   n - needed_for sc' req = needed - needed_for sc req"
proof (induction ss arbitrary: needed sc)
  case Nil
  then show ?case by simp
next
  case (Cons s ss)
  have step: "needed_for (commit sc (potential_assignment s req)) req = needed_for sc req - 1"
    by (simp add: needed_for_commit potential_assignment_def)
  show ?case
    using Cons.prems Cons.IH[of "needed - 1" "commit sc (potential_assignment s req)"]
      Cons.IH[of needed sc] step
    by (auto split: if_splits sum.splits bool.splits)
qed

lemma assign_staff_needed_mono:
  "assign_staff inst req ss needed sc = Inr (n, sc') \<Longrightarrow> needed_for sc' r \<le> needed_for sc r"
proof (induction ss arbitrary: needed sc)
  case Nil
  then show ?case by simp
next
  case (Cons s ss)
  have step: "needed_for (commit sc (potential_assignment s req)) r \<le> needed_for sc r"
    by (simp add: needed_for_commit)
  show ?case
    using Cons.prems Cons.IH[of "needed - 1" "commit sc (potential_assignment s req)"]
      Cons.IH[of needed sc] step
    by (auto split: if_splits sum.splits bool.splits)
qed

lemma fill_requirements_needed_mono:
  "fill_requirements inst reqs sc = Inr (ok, sc') \<Longrightarrow> needed_for sc' r \<le> needed_for sc r"
proof (induction reqs arbitrary: sc)
  case Nil
  then show ?case by simp
next
  case (Cons req reqs)
  show ?case
  proof (cases "needed_for sc req \<le> 0")
    case True
    then show ?thesis using Cons by simp
  next
    case False
    then obtain n sc1 where
      run: "assign_staff inst req (staff inst) (needed_for sc req) sc = Inr (n, sc1)"
      using Cons.prems by (auto split: sum.splits)
    have m1: "needed_for sc1 r \<le> needed_for sc r"
      using assign_staff_needed_mono[OF run] .
    show ?thesis
    proof (cases "n > 0")
      case True
      with False run Cons.prems have "sc' = sc1" by simp
      with m1 show ?thesis by simp
    next
      case filled: False
      with False run Cons.prems have "fill_requirements inst reqs sc1 = Inr (ok, sc')" by simp
      from Cons.IH[OF this] m1 show ?thesis by simp
    qed
  qed
qed

lemma fill_requirements_met:
  "fill_requirements inst reqs sc = Inr (True, sc') \<Longrightarrow> req \<in> set reqs \<Longrightarrow>
   needed_for sc' req \<le> 0"
proof (induction reqs arbitrary: sc)
  case Nil
  then show ?case by simp
next
  case (Cons r reqs)
  show ?case
  proof (cases "needed_for sc r \<le> 0")
    case True
    then have rest: "fill_requirements inst reqs sc = Inr (True, sc')"
      using Cons.prems(1) by simp
    show ?thesis
    proof (cases "req = r")
      case same: True
      then show ?thesis using fill_requirements_needed_mono[OF rest, of r] True by simp
    next
      case other: False
      then show ?thesis using Cons.IH[OF rest] Cons.prems(2) by simp
    qed
  next
    case False
    then obtain n sc1 where
      run: "assign_staff inst r (staff inst) (needed_for sc r) sc = Inr (n, sc1)"
      using Cons.prems(1) by (auto split: sum.splits)
    have filled: "\<not> n > 0"
      using Cons.prems(1) False run by (auto split: if_splits)
    then have rest: "fill_requirements inst reqs sc1 = Inr (True, sc')"
      using Cons.prems(1) False run by simp
    show ?thesis
    proof (cases "req = r")
      case same: True
      have "n = needed_for sc1 r" using assign_staff_needed[OF run] by simp
      then show ?thesis
        using fill_requirements_needed_mono[OF rest, of r] filled same by simp
    next
      case other: False
      then show ?thesis using Cons.IH[OF rest] Cons.prems(2) by simp
    qed
  qed
qed

lemma fill_requirements_unmet:
  "fill_requirements inst reqs sc = Inr (False, sc') \<Longrightarrow>
   \<exists>req \<in> set reqs. 0 < needed_for sc' req \<and>
     (\<forall>t \<in> set (staff inst).
        is_valid_assignment inst sc' (potential_assignment t req) = Inr False \<or>
        potential_assignment t req \<in> set (assignments sc'))"
proof (induction reqs arbitrary: sc)
  case Nil
  then show ?case by simp
next
  case (Cons r reqs)
  show ?case
  proof (cases "needed_for sc r \<le> 0")
    case True
    then show ?thesis using Cons by simp
  next
    case False
    then obtain n sc1 where
      run: "assign_staff inst r (staff inst) (needed_for sc r) sc = Inr (n, sc1)"
      using Cons.prems by (auto split: sum.splits)
    show ?thesis
    proof (cases "n > 0")
      case True
      with False run Cons.prems have here: "sc' = sc1" by simp
      have "n = needed_for sc1 r" using assign_staff_needed[OF run] by simp
      then have "0 < needed_for sc' r" using True here by simp
      moreover have "\<forall>t \<in> set (staff inst).
          is_valid_assignment inst sc' (potential_assignment t r) = Inr False \<or>
          potential_assignment t r \<in> set (assignments sc')"
        using assign_staff_all_tried[OF run True] here by blast
      ultimately show ?thesis by auto
    next
      case filled: False
      with False run Cons.prems have "fill_requirements inst reqs sc1 = Inr (False, sc')" by simp
      from Cons.IH[OF this] show ?thesis by auto
    qed
  qed
qed

lemma sorted_unknown_shift_later:
  "sorted_requirements unknown_shift_later =
     [cover_line 0 ''D'' 1 10, cover_line 1 ''D'' 1 10, cover_line 2 ''D'' 1 10,
      cover_line 4 ''X'' 1 5]"
  by (simp add: sorted_requirements_def unknown_shift_later_def cover_line_def)

lemma schedule_after_unknown_shift_later: "schedule_after unknown_shift_later = two_of_three"
  unfolding schedule_after_def sorted_unknown_shift_later
  by (simp add: unknown_shift_later_def two_of_three_def instance_defs schedule_defs)

lemma greedy_unknown_shift_first:
  "greedy_schedule unknown_shift_first = Inl KeyError \<and>
   assignments (schedule_after unknown_shift_first) = [assign ''S1'' 0 ''X''] \<and>
   \<not> shifts_known unknown_shift_first (schedule_after unknown_shift_first)"
  unfolding greedy_schedule_def schedule_after_def
  by (simp add: sorted_requirements_def shifts_known_def unknown_shift_first_def instance_defs
      schedule_defs)

text \<open>
  C9. When the candidate's staff id is in the staff list and the shift ids of that staff member's
  assignments are in the shift table, the predicate returns a boolean: it raises nothing. When
  every shift id in the assignments the \<open>Schedule\<close> object holds when greedy fill ends is in
  the shift table, greedy fill has returned a boolean, with that schedule: it raised nothing. A
  candidate the predicate rejects is dropped, the schedule stays as it is and the loop goes on
  with the next staff member; when the staff loop ends with a positive count still needed, every
  staff member of the list was tried: its candidate is in the schedule, or it is one the predicate
  rejects there. Failure shows in the boolean and the schedule only: with the result True every
  requirement is met in the returned schedule, and with the result False one requirement is unmet
  there and every staff member is either on it or rejected for it.
\<close>

theorem no_exception:
  "(staff_id a \<in> st_id ` set (staff inst) \<longrightarrow>
      (\<forall>b \<in> set (get_list (staff_assignments sc) (staff_id a)).
          shift_id b \<in> sh_id ` set (shifts inst)) \<longrightarrow>
      (\<exists>r. is_valid_assignment inst sc a = Inr r)) \<and>
   (shifts_known inst (schedule_after inst) \<longrightarrow>
      (\<exists>ok. greedy_schedule inst = Inr (ok, schedule_after inst))) \<and>
   (greedy_schedule inst = Inr (ok, sc) \<longrightarrow> schedule_after inst = sc) \<and>
   (0 < needed \<longrightarrow> is_valid_assignment inst sc (potential_assignment s req) = Inr False \<longrightarrow>
      assign_staff inst req (s # ss) needed sc = assign_staff inst req ss needed sc) \<and>
   (assign_staff inst req ss needed sc = Inr (n, sc') \<longrightarrow> 0 < n \<longrightarrow> t \<in> set ss \<longrightarrow>
      is_valid_assignment inst sc' (potential_assignment t req) = Inr False \<or>
      potential_assignment t req \<in> set (assignments sc')) \<and>
   (greedy_schedule inst = Inr (True, sc) \<longrightarrow> req \<in> set (cover_requirements inst) \<longrightarrow>
      needed_for sc req \<le> 0) \<and>
   (greedy_schedule inst = Inr (False, sc) \<longrightarrow>
      (\<exists>unmet \<in> set (cover_requirements inst). 0 < needed_for sc unmet \<and>
         (\<forall>t \<in> set (staff inst).
            is_valid_assignment inst sc (potential_assignment t unmet) = Inr False \<or>
            potential_assignment t unmet \<in> set (assignments sc))))"
proof -
  have one: "\<exists>r. is_valid_assignment inst sc a = Inr r"
    if "staff_id a \<in> st_id ` set (staff inst)"
      "\<forall>b \<in> set (get_list (staff_assignments sc) (staff_id a)).
          shift_id b \<in> sh_id ` set (shifts inst)"
    using is_valid_assignment_returns[OF that] .
  have run: "\<exists>ok. greedy_schedule inst = Inr (ok, schedule_after inst)"
    if "shifts_known inst (schedule_after inst)"
    using greedy_schedule_returns[OF that] .
  have held: "schedule_after inst = sc" if "greedy_schedule inst = Inr (ok, sc)"
    using that unfolding greedy_schedule_def schedule_after_def
    by (rule fill_requirements_held_eq)
  have skip: "assign_staff inst req (s # ss) needed sc = assign_staff inst req ss needed sc"
    if "0 < needed" "is_valid_assignment inst sc (potential_assignment s req) = Inr False"
    using that by simp
  have tried: "is_valid_assignment inst sc' (potential_assignment t req) = Inr False \<or>
      potential_assignment t req \<in> set (assignments sc')"
    if "assign_staff inst req ss needed sc = Inr (n, sc')" "0 < n" "t \<in> set ss"
    using assign_staff_all_tried[OF that] .
  have met: "needed_for sc req \<le> 0"
    if "greedy_schedule inst = Inr (True, sc)" "req \<in> set (cover_requirements inst)"
    using fill_requirements_met[of inst "sorted_requirements inst" init_schedule sc req] that
    unfolding greedy_schedule_def by (simp add: set_sorted_requirements)
  have unmet: "\<exists>unmet \<in> set (cover_requirements inst). 0 < needed_for sc unmet \<and>
         (\<forall>t \<in> set (staff inst).
            is_valid_assignment inst sc (potential_assignment t unmet) = Inr False \<or>
            potential_assignment t unmet \<in> set (assignments sc))"
    if "greedy_schedule inst = Inr (False, sc)"
    using fill_requirements_unmet[of inst "sorted_requirements inst" init_schedule sc] that
    unfolding greedy_schedule_def by (simp add: set_sorted_requirements)
  show ?thesis
    using one run held skip tried met unmet by blast
qed

theorem no_exception_witness:
  "staff_id (assign ''S1'' 2 ''D'') \<in> st_id ` set (staff three_days) \<and>
   shift_id ` set (get_list (staff_assignments two_of_three) (staff_id (assign ''S1'' 2 ''D'')))
     \<subseteq> sh_id ` set (shifts three_days) \<and>
   (\<exists>r. is_valid_assignment three_days two_of_three (assign ''S1'' 2 ''D'') = Inr r) \<and>
   cover_line 4 ''X'' 1 5 \<in> set (cover_requirements unknown_shift_later) \<and>
   ''X'' \<notin> sh_id ` set (shifts unknown_shift_later) \<and>
   schedule_after unknown_shift_later = two_of_three \<and>
   shifts_known unknown_shift_later (schedule_after unknown_shift_later) \<and>
   (\<exists>ok. greedy_schedule unknown_shift_later = Inr (ok, schedule_after unknown_shift_later)) \<and>
   greedy_schedule one_day_off = Inr (True, second_steps_in) \<and>
   schedule_after one_day_off = second_steps_in \<and>
   (0::int) < 1 \<and>
   is_valid_assignment one_day_off init_schedule
     (potential_assignment (staff_line ''S1'' Map.empty 14 5) (cover_line 0 ''D'' 1 10)) = Inr False \<and>
   assign_staff one_day_off (cover_line 0 ''D'' 1 10)
       (staff_line ''S1'' Map.empty 14 5 # [staff_line ''S2'' Map.empty 14 5]) 1 init_schedule =
     assign_staff one_day_off (cover_line 0 ''D'' 1 10) [staff_line ''S2'' Map.empty 14 5] 1
       init_schedule \<and>
   assign_staff one_day_off (cover_line 0 ''D'' 1 10) [staff_line ''S2'' Map.empty 14 5] 1
       init_schedule = Inr (0, commit init_schedule (assign ''S2'' 0 ''D'')) \<and>
   assign_staff one_day_off (cover_line 0 ''D'' 2 10) (staff one_day_off) 2 init_schedule =
     Inr (1, commit init_schedule (assign ''S2'' 0 ''D'')) \<and>
   staff_line ''S1'' Map.empty 14 5 \<in> set (staff one_day_off) \<and>
   staff_line ''S2'' Map.empty 14 5 \<in> set (staff one_day_off) \<and>
   (is_valid_assignment one_day_off (commit init_schedule (assign ''S2'' 0 ''D''))
      (potential_assignment (staff_line ''S1'' Map.empty 14 5) (cover_line 0 ''D'' 2 10)) = Inr False \<or>
    potential_assignment (staff_line ''S1'' Map.empty 14 5) (cover_line 0 ''D'' 2 10)
      \<in> set (assignments (commit init_schedule (assign ''S2'' 0 ''D'')))) \<and>
   is_valid_assignment one_day_off (commit init_schedule (assign ''S2'' 0 ''D''))
     (potential_assignment (staff_line ''S1'' Map.empty 14 5) (cover_line 0 ''D'' 2 10)) = Inr False \<and>
   potential_assignment (staff_line ''S2'' Map.empty 14 5) (cover_line 0 ''D'' 2 10)
     \<in> set (assignments (commit init_schedule (assign ''S2'' 0 ''D''))) \<and>
   cover_line 1 ''D'' 1 5 \<in> set (cover_requirements one_day_off) \<and>
   needed_for second_steps_in (cover_line 1 ''D'' 1 5) \<le> 0 \<and>
   greedy_schedule three_days = Inr (False, two_of_three) \<and>
   (\<exists>unmet \<in> set (cover_requirements three_days). 0 < needed_for two_of_three unmet \<and>
      (\<forall>t \<in> set (staff three_days).
         is_valid_assignment three_days two_of_three (potential_assignment t unmet) = Inr False \<or>
         potential_assignment t unmet \<in> set (assignments two_of_three)))"
proof -
  let ?a = "assign ''S1'' 2 ''D''"
  let ?s1 = "staff_line ''S1'' Map.empty 14 5"
  let ?s2 = "staff_line ''S2'' Map.empty 14 5"
  let ?one = "cover_line 0 ''D'' 1 10"
  let ?two = "cover_line 0 ''D'' 2 10"
  let ?sc = "commit init_schedule (assign ''S2'' 0 ''D'')"
  have listed: "staff_id ?a \<in> st_id ` set (staff three_days)"
    by (simp add: three_days_def instance_defs)
  have mine: "\<forall>b \<in> set (get_list (staff_assignments two_of_three) (staff_id ?a)).
      shift_id b \<in> sh_id ` set (shifts three_days)"
    by (simp add: three_days_def two_of_three_def instance_defs)
  have returns: "\<exists>r. is_valid_assignment three_days two_of_three ?a = Inr r"
    using no_exception[where inst = three_days and a = ?a and sc = two_of_three] listed mine
    by blast
  have outside: "cover_line 4 ''X'' 1 5 \<in> set (cover_requirements unknown_shift_later)"
    "''X'' \<notin> sh_id ` set (shifts unknown_shift_later)"
    by (simp_all add: unknown_shift_later_def instance_defs)
  have after: "schedule_after unknown_shift_later = two_of_three"
    by (rule schedule_after_unknown_shift_later)
  have known: "shifts_known unknown_shift_later (schedule_after unknown_shift_later)"
    unfolding after
    by (simp add: shifts_known_def unknown_shift_later_def two_of_three_def instance_defs)
  have ends: "\<exists>ok. greedy_schedule unknown_shift_later =
      Inr (ok, schedule_after unknown_shift_later)"
    using no_exception[where inst = unknown_shift_later] known by blast
  have filled: "greedy_schedule one_day_off = Inr (True, second_steps_in)"
    by (rule greedy_one_day_off)
  have held: "schedule_after one_day_off = second_steps_in"
    using no_exception[where inst = one_day_off and ok = True and sc = second_steps_in] filled
    by blast
  have pos: "(0::int) < 1" by simp
  have rejected: "is_valid_assignment one_day_off init_schedule (potential_assignment ?s1 ?one)
      = Inr False"
    by (simp add: one_day_off_def instance_defs schedule_defs)
  have next_tried: "assign_staff one_day_off ?one (?s1 # [?s2]) 1 init_schedule =
      assign_staff one_day_off ?one [?s2] 1 init_schedule"
    using no_exception[where inst = one_day_off and needed = 1 and sc = init_schedule
        and s = ?s1 and req = ?one and ss = "[?s2]"] pos rejected
    by blast
  have steps_in: "assign_staff one_day_off ?one [?s2] 1 init_schedule = Inr (0, ?sc)"
    by (simp add: one_day_off_def instance_defs schedule_defs)
  have short: "assign_staff one_day_off ?two (staff one_day_off) 2 init_schedule = Inr (1, ?sc)"
    by (simp add: one_day_off_def instance_defs schedule_defs)
  have members: "?s1 \<in> set (staff one_day_off)" "?s2 \<in> set (staff one_day_off)"
    by (simp_all add: one_day_off_def)
  have off: "is_valid_assignment one_day_off ?sc (potential_assignment ?s1 ?two) = Inr False"
    by (simp add: one_day_off_def instance_defs schedule_defs)
  have taken: "potential_assignment ?s2 ?two \<in> set (assignments ?sc)"
    by (simp add: instance_defs schedule_defs)
  have either: "is_valid_assignment one_day_off ?sc (potential_assignment ?s1 ?two) = Inr False \<or>
      potential_assignment ?s1 ?two \<in> set (assignments ?sc)"
    using no_exception[where inst = one_day_off and req = ?two and ss = "staff one_day_off"
        and needed = 2 and sc = init_schedule and n = 1 and sc' = ?sc and t = ?s1]
      short pos members
    by blast
  have asked: "cover_line 1 ''D'' 1 5 \<in> set (cover_requirements one_day_off)"
    by (simp add: one_day_off_def)
  have met: "needed_for second_steps_in (cover_line 1 ''D'' 1 5) \<le> 0"
    using no_exception[where inst = one_day_off and sc = second_steps_in
        and req = "cover_line 1 ''D'' 1 5"] filled asked
    by blast
  have failed: "greedy_schedule three_days = Inr (False, two_of_three)"
    by (rule greedy_three_days)
  have unmet: "\<exists>unmet \<in> set (cover_requirements three_days). 0 < needed_for two_of_three unmet \<and>
      (\<forall>t \<in> set (staff three_days).
         is_valid_assignment three_days two_of_three (potential_assignment t unmet) = Inr False \<or>
         potential_assignment t unmet \<in> set (assignments two_of_three))"
    using no_exception[where inst = three_days and sc = two_of_three] failed
    by blast
  have subset: "shift_id ` set (get_list (staff_assignments two_of_three) (staff_id ?a))
      \<subseteq> sh_id ` set (shifts three_days)"
    using mine by blast
  show ?thesis
    using listed subset returns outside after known ends filled held pos rejected next_tried
      steps_in short members either off taken asked met failed unmet
    by (intro conjI)
qed

end
